theory Spec2Isabelle
  imports Main "HOL-Library.AList" "HOL-Library.Sublist"
begin

section \<open>Python values and exceptions\<close>

text \<open>
  The configuration layer works on the values a YAML file yields: \<open>None\<close>, booleans,
  integers, strings, lists, sets of strings and mappings with string keys. A mapping is an
  association list in insertion order, as a Python \<open>dict\<close> is; a set is the list of its
  elements in iteration order and is only ever compared through \<open>set\<close>.
\<close>

datatype pyval =
    PNone
  | PBool bool
  | PInt int
  | PStr string
  | PList "pyval list"
  | PSet "string list"
  | PDict "(string \<times> pyval) list"

type_synonym pydict = "(string \<times> pyval) list"

text \<open>
  The exceptions the modelled code raises. An f-string message is kept as its literal text
  followed by the value that is interpolated at its end.
\<close>

datatype error =
    KeyError string
  | TypeError
  | AttributeError
  | ValueError string
  | RuntimeError
  | ValidationError
  | ParseError string
  | UnexpectedError string pyval

section \<open>Expiring elements: \<open>remove_expired_elements\<close>\<close>

text \<open>
  A Python \<open>datetime\<close> is naive (wall-clock seconds only) or aware (wall-clock seconds and
  the UTC offset of its time zone, in seconds). Comparing a naive with an aware one raises
  \<open>TypeError\<close>; two aware ones compare by instant.
\<close>

datatype datetime = Naive int | Aware int int

fun instant :: "datetime \<Rightarrow> int" where
  "instant (Naive w) = w"
| "instant (Aware w off) = w - off"

fun is_aware :: "datetime \<Rightarrow> bool" where
  "is_aware (Naive w) = False"
| "is_aware (Aware w off) = True"

fun datetime_le :: "datetime \<Rightarrow> datetime \<Rightarrow> error + bool" where
  "datetime_le (Naive a) (Naive b) = Inr (a \<le> b)"
| "datetime_le (Aware a oa) (Aware b ob) = Inr (a - oa \<le> b - ob)"
| "datetime_le (Naive a) (Aware b ob) = Inl TypeError"
| "datetime_le (Aware a oa) (Naive b) = Inl TypeError"

text \<open>
  \<open>ConfigIgnoredElement\<close>: the two fields every ignorable element has; the concrete
  kinds (path, policy, vulnerability) extend the record.
\<close>

record ConfigIgnoredElement =
  comment :: "string option"
  until :: "datetime option"

text \<open>
  The test of the loop body, \<open>ignored.until and ignored.until <= now\<close>: a missing
  \<open>until\<close> is falsy and the comparison is not made; a \<open>datetime\<close> is always truthy.
  \<open>now\<close> is \<open>datetime.now(tz=timezone.utc)\<close>, an aware datetime of offset 0.
\<close>

definition is_expired :: "int \<Rightarrow> 'a ConfigIgnoredElement_scheme \<Rightarrow> error + bool" where
  "is_expired now ignored =
     (case until ignored of
        None \<Rightarrow> Inr False
      | Some t \<Rightarrow> datetime_le t (Aware now 0))"

text \<open>
  The loop \<open>for idx in range(len(lst) - 1, -1, -1)\<close>: \<open>sweep now n lst expired\<close> runs the
  iterations for \<open>idx = n - 1, ..., 0\<close> on the current list and the expired elements
  collected so far; \<open>lst.pop(idx)\<close> removes position \<open>idx\<close>, \<open>expired.insert(0, ignored)\<close>
  puts the element in front.
\<close>

fun sweep ::
  "int \<Rightarrow> nat \<Rightarrow> 'a ConfigIgnoredElement_scheme list \<Rightarrow> 'a ConfigIgnoredElement_scheme list
     \<Rightarrow> error + ('a ConfigIgnoredElement_scheme list \<times> 'a ConfigIgnoredElement_scheme list)"
where
  "sweep now 0 lst expired = Inr (lst, expired)"
| "sweep now (Suc idx) lst expired =
     (let ignored = lst ! idx in
      case is_expired now ignored of
        Inl e \<Rightarrow> Inl e
      | Inr True \<Rightarrow> sweep now idx (take idx lst @ drop (Suc idx) lst) (ignored # expired)
      | Inr False \<Rightarrow> sweep now idx lst expired)"

text \<open>
  \<open>remove_expired_elements\<close> returns the expired elements and leaves the active ones in
  the list it was given: the model returns the pair (list left in place, list returned).
\<close>

definition remove_expired_elements ::
  "int \<Rightarrow> 'a ConfigIgnoredElement_scheme list
     \<Rightarrow> error + ('a ConfigIgnoredElement_scheme list \<times> 'a ConfigIgnoredElement_scheme list)"
where
  "remove_expired_elements now lst = sweep now (length lst) lst []"

text \<open>An element is expired when its \<open>until\<close> is set and \<open>until <= now\<close>.\<close>

definition expired_at :: "int \<Rightarrow> 'a ConfigIgnoredElement_scheme \<Rightarrow> bool" where
  "expired_at now ignored = (case until ignored of None \<Rightarrow> False | Some t \<Rightarrow> instant t \<le> now)"

definition aware_until :: "'a ConfigIgnoredElement_scheme \<Rightarrow> bool" where
  "aware_until ignored = (case until ignored of None \<Rightarrow> True | Some t \<Rightarrow> is_aware t)"

section \<open>Python operations on values\<close>

text \<open>Truthiness, as \<open>if x\<close>, \<open>not x\<close> and \<open>x or y\<close> test it.\<close>

fun truthy :: "pyval \<Rightarrow> bool" where
  "truthy PNone = False"
| "truthy (PBool b) = b"
| "truthy (PInt i) = (i \<noteq> 0)"
| "truthy (PStr s) = (s \<noteq> [])"
| "truthy (PList xs) = (xs \<noteq> [])"
| "truthy (PSet xs) = (xs \<noteq> [])"
| "truthy (PDict d) = (d \<noteq> [])"

text \<open>
  Python's \<open>==\<close>: \<open>True == 1\<close> and \<open>False == 0\<close> hold, lists compare element by element,
  sets by their elements, mappings by their keys and the values under them, whatever the
  insertion order.
\<close>

fun py_eq :: "pyval \<Rightarrow> pyval \<Rightarrow> bool" where
  "py_eq PNone PNone = True"
| "py_eq (PBool a) (PBool b) = (a = b)"
| "py_eq (PBool a) (PInt b) = ((if a then 1 else 0) = b)"
| "py_eq (PInt a) (PBool b) = (a = (if b then 1 else 0))"
| "py_eq (PInt a) (PInt b) = (a = b)"
| "py_eq (PStr a) (PStr b) = (a = b)"
| "py_eq (PList xs) (PList ys) = list_all2 py_eq xs ys"
| "py_eq (PSet xs) (PSet ys) = (set xs = set ys)"
| "py_eq (PDict a) (PDict b) =
     (length a = length b \<and>
      (\<forall>(k, v) \<in> set a. case map_of b k of None \<Rightarrow> False | Some w \<Rightarrow> py_eq v w))"
| "py_eq _ _ = False"

text \<open>\<open>d.setdefault(name, dflt)\<close>: the value the call returns.\<close>

definition setdefault :: "pydict \<Rightarrow> string \<Rightarrow> pyval \<Rightarrow> pyval" where
  "setdefault d name dflt = (case map_of d name of None \<Rightarrow> dflt | Some v \<Rightarrow> v)"

text \<open>\<open>s.update(vs)\<close> on a set: the elements of \<open>s\<close> and the new ones of \<open>vs\<close>.\<close>

definition set_update :: "string list \<Rightarrow> string list \<Rightarrow> string list" where
  "set_update ds vs = ds @ filter (\<lambda>v. v \<notin> set ds) (remdups vs)"

text \<open>\<open>str(n)\<close> for a number that is not negative: its decimal digits.\<close>

function decimal :: "nat \<Rightarrow> string" where
  "decimal n =
     (if n < 10 then [''0123456789'' ! n]
      else decimal (n div 10) @ [''0123456789'' ! (n mod 10)])"
  by pat_completeness auto
termination
  by (relation "measure id") auto

declare decimal.simps [simp del]

text \<open>
  \<open>d.update(vs)\<close> on a mapping, given an iterable of strings: each element must be a
  sequence of length two, its first character the key and its second the value. The
  message of the \<open>ValueError\<close> names the position of the offending element in the
  iteration and its length.
\<close>

fun dict_update_from_strings_at :: "nat \<Rightarrow> pydict \<Rightarrow> string list \<Rightarrow> error + pydict" where
  "dict_update_from_strings_at i d [] = Inr d"
| "dict_update_from_strings_at i d ([k, v] # ss) =
     dict_update_from_strings_at (Suc i) (AList.update [k] (PStr [v]) d) ss"
| "dict_update_from_strings_at i d (s # ss) =
     Inl (ValueError (''dictionary update sequence element #'' @ decimal i
                      @ '' has length '' @ decimal (length s) @ ''; 2 is required''))"

definition dict_update_from_strings :: "pydict \<Rightarrow> string list \<Rightarrow> error + pydict" where
  "dict_update_from_strings d ss = dict_update_from_strings_at 0 d ss"

text \<open>\<open>container[key]\<close> with a string key: only a mapping can be subscripted so.\<close>

fun subscript :: "pyval \<Rightarrow> string \<Rightarrow> error + pyval" where
  "subscript (PDict d) key = (case map_of d key of None \<Rightarrow> Inl (KeyError key) | Some v \<Rightarrow> Inr v)"
| "subscript v key = Inl TypeError"

text \<open>\<open>key in container\<close> for a string key; on a string it is the substring test.\<close>

fun py_contains :: "pyval \<Rightarrow> string \<Rightarrow> error + bool" where
  "py_contains (PDict d) key = Inr (key \<in> fst ` set d)"
| "py_contains (PList xs) key = Inr (PStr key \<in> set xs)"
| "py_contains (PSet xs) key = Inr (key \<in> set xs)"
| "py_contains (PStr s) key = Inr (sublist key s)"
| "py_contains v key = Inl TypeError"

text \<open>Iterating a value: a string yields its characters, a mapping its keys.\<close>

fun py_iter :: "pyval \<Rightarrow> error + pyval list" where
  "py_iter (PList xs) = Inr xs"
| "py_iter (PStr s) = Inr (map (\<lambda>c. PStr [c]) s)"
| "py_iter (PSet xs) = Inr (map PStr xs)"
| "py_iter (PDict d) = Inr (map (\<lambda>(k, v). PStr k) d)"
| "py_iter v = Inl TypeError"

text \<open>A list comprehension whose element expression may raise: the first error ends it.\<close>

fun map_result :: "('a \<Rightarrow> error + 'b) \<Rightarrow> 'a list \<Rightarrow> error + 'b list" where
  "map_result f [] = Inr []"
| "map_result f (x # xs) =
     (case f x of
        Inl e \<Rightarrow> Inl e
      | Inr y \<Rightarrow> (case map_result f xs of Inl e \<Rightarrow> Inl e | Inr ys \<Rightarrow> Inr (y # ys)))"

section \<open>Key normalisation: \<open>replace_in_keys\<close>\<close>

text \<open>\<open>key.replace(old_char, new_char)\<close> for one-character arguments.\<close>

definition str_replace :: "char \<Rightarrow> char \<Rightarrow> string \<Rightarrow> string" where
  "str_replace old_char new_char key = map (\<lambda>c. if c = old_char then new_char else c) key"

text \<open>
  The second half of one iteration of the loop over \<open>list(data.items())\<close>:
  \<open>if old_char in key: data[new_key] = data.pop(key)\<close>. The key is one of the snapshot and
  only its own iteration removes it, so \<open>pop\<close> finds it.
\<close>

definition rename_key :: "char \<Rightarrow> char \<Rightarrow> string \<Rightarrow> pydict \<Rightarrow> pydict" where
  "rename_key old_char new_char key data =
     (if old_char \<in> set key then
        (case map_of data key of
           None \<Rightarrow> data
         | Some v \<Rightarrow> AList.update (str_replace old_char new_char key) v (AList.delete key data))
      else data)"

text \<open>
  \<open>replace_in_keys\<close> rewrites the nested values in place and renames the keys of each
  mapping in the order of the snapshot. The recursive call changes the value object
  itself, whatever key it is bound to afterwards, so the model rewrites the values first
  and then runs the renames over the snapshot's keys.
\<close>

fun replace_in_keys :: "pyval \<Rightarrow> char \<Rightarrow> char \<Rightarrow> pyval" where
  "replace_in_keys (PDict data) old_char new_char =
     PDict (fold (rename_key old_char new_char) (map fst data)
              (map (\<lambda>(key, v). (key, replace_in_keys v old_char new_char)) data))"
| "replace_in_keys (PList data) old_char new_char =
     PList (map (\<lambda>element. replace_in_keys element old_char new_char) data)"
| "replace_in_keys v old_char new_char = v"

section \<open>Merging two layers: \<open>update_dict_from_other\<close>\<close>

text \<open>
  The loop over \<open>src.items()\<close>; \<open>dst\<close> is updated in place, the model returns it. The
  equations follow the \<open>if\<close>/\<open>elif\<close> chain on the value; where \<open>dst\<close> or the value
  already under the name has no such method, Python raises.
\<close>

function (sequential) update_dict_from_other :: "pyval \<Rightarrow> pydict \<Rightarrow> error + pyval" where
  "update_dict_from_other dst [] = Inr dst"
| "update_dict_from_other dst ((name, PNone) # src) = update_dict_from_other dst src"
| "update_dict_from_other (PDict d) ((name, PList vs) # src) =
     (case setdefault d name (PList []) of
        PList ds \<Rightarrow> update_dict_from_other (PDict (AList.update name (PList (ds @ vs)) d)) src
      | _ \<Rightarrow> Inl AttributeError)"
| "update_dict_from_other (PDict d) ((name, PSet vs) # src) =
     (case setdefault d name (PSet []) of
        PSet ds \<Rightarrow> update_dict_from_other (PDict (AList.update name (PSet (set_update ds vs)) d)) src
      | PDict dd \<Rightarrow>
          (case dict_update_from_strings dd vs of
             Inl e \<Rightarrow> Inl e
           | Inr dd' \<Rightarrow> update_dict_from_other (PDict (AList.update name (PDict dd') d)) src)
      | _ \<Rightarrow> Inl AttributeError)"
| "update_dict_from_other (PDict d) ((name, PDict vs) # src) =
     (case update_dict_from_other (setdefault d name (PDict [])) vs of
        Inl e \<Rightarrow> Inl e
      | Inr sub \<Rightarrow> update_dict_from_other (PDict (AList.update name sub d)) src)"
| "update_dict_from_other (PDict d) ((name, value) # src) =
     update_dict_from_other (PDict (AList.update name value d)) src"
| "update_dict_from_other dst ((name, PList vs) # src) = Inl AttributeError"
| "update_dict_from_other dst ((name, PSet vs) # src) = Inl AttributeError"
| "update_dict_from_other dst ((name, PDict vs) # src) = Inl AttributeError"
| "update_dict_from_other dst ((name, value) # src) = Inl TypeError"
  by pat_completeness auto
termination
  by (relation "measure (\<lambda>(dst, src). size_list (size_prod (\<lambda>_. 0) size) src)") auto

section \<open>The diff against the defaults: \<open>remove_common_dict_items\<close>\<close>

text \<open>
  The loop over \<open>dct.items()\<close> with the result mapping built so far. The recursive call
  receives whatever value the reference holds under the key.
\<close>

function (sequential) remove_common_items_loop ::
  "pydict \<Rightarrow> pyval \<Rightarrow> pydict \<Rightarrow> error + pydict" where
  "remove_common_items_loop [] reference_dct result_dct = Inr result_dct"
| "remove_common_items_loop ((key, PDict sub) # dct) reference_dct result_dct =
     (case subscript reference_dct key of
        Inl e \<Rightarrow> Inl e
      | Inr reference_value \<Rightarrow>
          (case remove_common_items_loop sub reference_value [] of
             Inl e \<Rightarrow> Inl e
           | Inr v \<Rightarrow>
               if v = [] then remove_common_items_loop dct reference_dct result_dct
               else remove_common_items_loop dct reference_dct
                      (AList.update key (PDict v) result_dct)))"
| "remove_common_items_loop ((key, value) # dct) reference_dct result_dct =
     (case subscript reference_dct key of
        Inl e \<Rightarrow> Inl e
      | Inr reference_value \<Rightarrow>
          if py_eq value reference_value then remove_common_items_loop dct reference_dct result_dct
          else remove_common_items_loop dct reference_dct (AList.update key value result_dct))"
  by pat_completeness auto
termination
  by (relation "measure (\<lambda>(dct, r, acc). size_list (size_prod (\<lambda>_. 0) size) dct)") auto

definition remove_common_dict_items :: "pydict \<Rightarrow> pyval \<Rightarrow> error + pydict" where
  "remove_common_dict_items dct reference_dct = remove_common_items_loop dct reference_dct []"

section \<open>Ignored matches: \<open>SecretConfig.add_ignored_match\<close>\<close>

record IgnoredMatch =
  name :: "string option"
  match :: string

text \<open>
  The \<open>for\<close> loop: \<open>Some\<close> the updated list when an entry with the same \<open>match\<close> is found
  (the early \<open>return\<close>, after naming the entry if \<open>not match.name\<close>), \<open>None\<close> when the
  loop runs to its end.
\<close>

fun add_ignored_match_loop :: "IgnoredMatch list \<Rightarrow> IgnoredMatch \<Rightarrow> IgnoredMatch list option" where
  "add_ignored_match_loop [] secret = None"
| "add_ignored_match_loop (m # rest) secret =
     (if match m = match secret then
        Some ((if name m = None \<or> name m = Some [] then m\<lparr>name := name secret\<rparr> else m) # rest)
      else map_option ((#) m) (add_ignored_match_loop rest secret))"

definition add_ignored_match :: "IgnoredMatch list \<Rightarrow> IgnoredMatch \<Rightarrow> IgnoredMatch list" where
  "add_ignored_match ignored_matches secret =
     (case add_ignored_match_loop ignored_matches secret of
        Some updated \<Rightarrow> updated
      | None \<Rightarrow> ignored_matches @ [secret])"

section \<open>Loading a configuration file\<close>

text \<open>
  What \<open>yaml.safe_load\<close> makes of an existing file: a parser or scanner error with its
  message, or a value. A file that does not exist is \<open>None\<close>.
\<close>

datatype yaml_outcome = YamlSyntaxError string | YamlLoaded pyval

definition load_yaml_dict :: "string \<Rightarrow> yaml_outcome option \<Rightarrow> error + pydict option" where
  "load_yaml_dict path file =
     (case file of
        None \<Rightarrow> Inr None
      | Some (YamlSyntaxError e) \<Rightarrow> Inl (ValueError (path @ '' is not a valid YAML file:\<newline>'' @ e))
      | Some (YamlLoaded v) \<Rightarrow>
          (case (if truthy v then v else PDict []) of
             PDict data \<Rightarrow> Inr (Some data)
           | _ \<Rightarrow> Inl (ValueError (path @ '' should be a dictionary.''))))"

text \<open>
  The loop \<open>for key in ...: value = data.pop(key, None); if value is not None: break\<close>
  of \<open>_fix_ignore_known_secrets\<close>: the value found, if any, and the mapping left.
\<close>

fun pop_first_set :: "string list \<Rightarrow> pydict \<Rightarrow> pyval option \<times> pydict" where
  "pop_first_set [] data = (None, data)"
| "pop_first_set (key # keys) data =
     (case map_of data key of
        None \<Rightarrow> pop_first_set keys data
      | Some v \<Rightarrow>
          if v \<noteq> PNone then (Some v, AList.delete key data)
          else pop_first_set keys (AList.delete key data))"

definition IGNORE_KNOWN_SECRETS_KEY :: string where
  "IGNORE_KNOWN_SECRETS_KEY = ''ignore-known-secrets''"

text \<open>\<open>_fix_ignore_known_secrets\<close>; the mapping is changed in place, the model returns it.\<close>

definition fix_ignore_known_secrets :: "pydict \<Rightarrow> error + pydict" where
  "fix_ignore_known_secrets data =
     (let underscore_key = str_replace (CHR ''-'') (CHR ''_'') IGNORE_KNOWN_SECRETS_KEY in
      case pop_first_set [IGNORE_KNOWN_SECRETS_KEY, underscore_key] data of
        (None, data1) \<Rightarrow> Inr data1
      | (Some v, data1) \<Rightarrow>
          (let secret_dct = setdefault data1 ''secret'' (PDict []);
               data2 = (if ''secret'' \<in> fst ` set data1 then data1
                        else data1 @ [(''secret'', PDict [])])
           in case py_contains secret_dct IGNORE_KNOWN_SECRETS_KEY of
                Inl e \<Rightarrow> Inl e
              | Inr True \<Rightarrow> Inr data2
              | Inr False \<Rightarrow>
                  (case py_contains secret_dct underscore_key of
                     Inl e \<Rightarrow> Inl e
                   | Inr True \<Rightarrow> Inr data2
                   | Inr False \<Rightarrow>
                       (case secret_dct of
                          PDict sd \<Rightarrow>
                            Inr (AList.update ''secret''
                                   (PDict (AList.update IGNORE_KNOWN_SECRETS_KEY v sd)) data2)
                        | _ \<Rightarrow> Inl TypeError))))"

text \<open>
  \<open>UserV1Config.matches_ignore_to_dict\<close>. It reads the key \<open>matches_ignore\<close>, written
  with an underscore. On a list it replaces each string entry; a non-empty value of
  another type cannot be assigned to by position.
\<close>

definition hash_to_dict :: "pyval \<Rightarrow> pyval" where
  "hash_to_dict m =
     (case m of PStr s \<Rightarrow> PDict [(''name'', PStr []), (''match'', PStr s)] | _ \<Rightarrow> m)"

definition matches_ignore_to_dict :: "pydict \<Rightarrow> error + pydict" where
  "matches_ignore_to_dict data =
     (case map_of data ''matches_ignore'' of
        None \<Rightarrow> Inr data
      | Some matches_ignore \<Rightarrow>
          if \<not> truthy matches_ignore then Inr data
          else (case matches_ignore of
                  PList xs \<Rightarrow>
                    Inr (AList.update ''matches_ignore'' (PList (map hash_to_dict xs)) data)
                | PDict d \<Rightarrow> Inl RuntimeError
                | _ \<Rightarrow> Inl TypeError))"

text \<open>The inner function \<open>copy_if_set\<close> of \<open>load_v1_dict\<close>, with the \<open>data\<close> it closes over.\<close>

definition copy_if_set :: "pydict \<Rightarrow> pydict \<Rightarrow> string \<Rightarrow> string \<Rightarrow> pydict" where
  "copy_if_set data dct dst_key src_key =
     (case map_of data src_key of None \<Rightarrow> dct | Some v \<Rightarrow> AList.update dst_key v dct)"

text \<open>
  The \<open>try\<close>/\<open>except KeyError\<close>/\<open>else\<close> block at the head of \<open>load_v1_dict\<close>.
  \<open>api_to_dashboard_url\<close> is not part of the sources: it is a parameter, which receives
  the URL and the \<open>warn\<close> flag and returns the converted URL together with the warnings it
  displayed, or raises. The block returns the mapping and the warnings displayed.
\<close>

definition rename_api_url ::
  "(pyval \<Rightarrow> bool \<Rightarrow> error + pyval \<times> string list) \<Rightarrow> pydict
     \<Rightarrow> error + pydict \<times> string list" where
  "rename_api_url api_to_dashboard_url data =
     (case map_of data ''api-url'' of
        None \<Rightarrow> Inr (data, [])
      | Some api_url \<Rightarrow>
          (let data1 = AList.delete ''api-url'' data in
           if ''instance'' \<notin> fst ` set data1 then
             (case api_to_dashboard_url api_url True of
                Inl e \<Rightarrow> Inl e
              | Inr (url, warnings) \<Rightarrow> Inr (AList.update ''instance'' url data1, warnings))
           else Inr (data1, [])))"

text \<open>
  The block that fills \<open>secret_dct["ignored-matches"]\<close>. \<open>IgnoredMatch\<close> is not part of
  the sources: the parameter stands for \<open>IgnoredMatch.from_dict(secret).to_dict()\<close> and
  returns the mapping together with the warnings the call displayed (a \<open>FilteredConfig\<close>
  warns about each key it does not recognise), or raises. The block returns the entries
  of \<open>secret_dct\<close> and the warnings displayed.
\<close>

definition ignored_matches_of ::
  "(pyval \<Rightarrow> error + pyval \<times> string list) \<Rightarrow> pydict \<Rightarrow> error + pydict \<times> string list" where
  "ignored_matches_of ignored_match_round_trip data =
     (case map_of data ''matches-ignore'' of
        None \<Rightarrow> Inr ([], [])
      | Some matches_ignore \<Rightarrow>
          if \<not> truthy matches_ignore then Inr ([], [])
          else (case py_iter matches_ignore of
                  Inl e \<Rightarrow> Inl e
                | Inr secrets \<Rightarrow>
                    (case map_result ignored_match_round_trip secrets of
                       Inl e \<Rightarrow> Inl e
                     | Inr ms \<Rightarrow>
                         Inr ([(''ignored-matches'',
                                replace_in_keys (PList (map fst ms)) (CHR ''_'') (CHR ''-''))],
                              concat (map snd ms)))))"

definition all_policies_message :: string where
  "all_policies_message = ''The `all-policies` option has been deprecated and is now ignored.''"

definition ignore_default_excludes_message :: string where
  "ignore_default_excludes_message =
     ''The `ignore-default-exclude` option has been deprecated and is now ignored.''"

text \<open>
  \<open>UserV1Config.load_v1_dict\<close>. The result is the v2 mapping, the list of deprecation
  messages after the call and the warnings displayed during it, those of the URL
  conversion before those of the ignored matches.
\<close>

definition load_v1_dict ::
  "(pyval \<Rightarrow> error + pyval \<times> string list)
     \<Rightarrow> (pyval \<Rightarrow> bool \<Rightarrow> error + pyval \<times> string list)
     \<Rightarrow> pydict \<Rightarrow> string list \<Rightarrow> error + pydict \<times> string list \<times> string list" where
  "load_v1_dict ignored_match_round_trip api_to_dashboard_url data0 deprecation_messages =
     (case rename_api_url api_to_dashboard_url data0 of
        Inl e \<Rightarrow> Inl e
      | Inr (data1, warnings) \<Rightarrow>
     (case matches_ignore_to_dict data1 of
        Inl e \<Rightarrow> Inl e
      | Inr data \<Rightarrow>
     (let msgs1 = (if ''all-policies'' \<in> fst ` set data
                   then deprecation_messages @ [all_policies_message]
                   else deprecation_messages);
          msgs2 = (if ''ignore-default-excludes'' \<in> fst ` set data
                   then msgs1 @ [ignore_default_excludes_message]
                   else msgs1)
      in case ignored_matches_of ignored_match_round_trip data of
           Inl e \<Rightarrow> Inl e
         | Inr (secret_dct0, match_warnings) \<Rightarrow>
             (let secret_dct1 = copy_if_set data secret_dct0 ''show-secrets'' ''show-secrets'';
                  secret_dct2 = copy_if_set data secret_dct1 ''ignored-detectors''
                                  ''banlisted-detectors'';
                  secret_dct = copy_if_set data secret_dct2 ''ignored-paths'' ''paths-ignore'';
                  dct0 = [(''secret'', PDict secret_dct)];
                  dct1 = copy_if_set data dct0 ''instance'' ''instance'';
                  dct2 = copy_if_set data dct1 ''exit-zero'' ''exit-zero'';
                  dct3 = copy_if_set data dct2 ''verbose'' ''verbose'';
                  dct4 = copy_if_set data dct3 ''allow-self-signed'' ''allow-self-signed'';
                  dct = copy_if_set data dct4 ''max-commits-for-hook'' ''max-commits-for-hook''
              in Inr (dct, msgs2, warnings @ match_warnings)))))"

definition CURRENT_CONFIG_VERSION :: int where
  "CURRENT_CONFIG_VERSION = 2"

definition deprecated_format_message :: "string \<Rightarrow> string" where
  "deprecated_format_message config_path =
     config_path @ '' uses a deprecated configuration file format.'' @
     '' Run `ggshield config migrate` to migrate it to the latest version.''"

definition unknown_version_text :: string where
  "unknown_version_text = ''Don't know how to load config version ''"

text \<open>
  \<open>UserConfig._load_config_dict\<close>. The file is given by what reading it yields; the
  result is the mapping, the deprecation messages after the call and the warnings
  displayed. \<open>replace_in_keys\<close> maps a mapping to a mapping, so the last branch is never
  taken.
\<close>

definition load_config_dict ::
  "(pyval \<Rightarrow> error + pyval \<times> string list)
     \<Rightarrow> (pyval \<Rightarrow> bool \<Rightarrow> error + pyval \<times> string list)
     \<Rightarrow> string \<Rightarrow> yaml_outcome option \<Rightarrow> string list
     \<Rightarrow> error + pydict \<times> string list \<times> string list" where
  "load_config_dict ignored_match_round_trip api_to_dashboard_url config_path file
       deprecation_messages =
     (case load_yaml_dict config_path file of
        Inl (ValueError msg) \<Rightarrow> Inl (ParseError msg)
      | Inl e \<Rightarrow> Inl e
      | Inr loaded \<Rightarrow>
          (let dct0 = (case loaded of
                         None \<Rightarrow> [(''version'', PInt CURRENT_CONFIG_VERSION)]
                       | Some d \<Rightarrow> if truthy (PDict d) then d
                                   else [(''version'', PInt CURRENT_CONFIG_VERSION)])
           in case replace_in_keys (PDict dct0) (CHR ''_'') (CHR ''-'') of
                PDict dct1 \<Rightarrow>
                  (let config_version =
                         (case map_of dct1 ''version'' of None \<Rightarrow> PInt 1 | Some v \<Rightarrow> v);
                       dct = AList.delete ''version'' dct1
                   in if py_eq config_version (PInt 2) then
                        (case fix_ignore_known_secrets dct of
                           Inl e \<Rightarrow> Inl e
                         | Inr fixed \<Rightarrow> Inr (fixed, deprecation_messages, []))
                      else if py_eq config_version (PInt 1) then
                        load_v1_dict ignored_match_round_trip api_to_dashboard_url dct
                          (deprecation_messages @ [deprecated_format_message config_path])
                      else Inl (UnexpectedError unknown_version_text config_version))
              | _ \<Rightarrow> Inl TypeError))"

text \<open>
  What adding \<open>secret\<close> does to an entry already in the list: an entry with the same
  \<open>match\<close> and an empty name takes the name of \<open>secret\<close>; any other entry is unchanged.
\<close>

definition backfill :: "IgnoredMatch \<Rightarrow> IgnoredMatch \<Rightarrow> IgnoredMatch" where
  "backfill secret m =
     (if match m = match secret \<and> (name m = None \<or> name m = Some [])
      then m\<lparr>name := name secret\<rparr> else m)"

text \<open>
  What the merge leaves under one name of \<open>src\<close> whose value is not null, read off the
  value already under that key in \<open>dst\<close>: a list is extended, a set is united, a mapping
  is merged recursively into the mapping of \<open>dst\<close> (an empty one if there is none), any
  other value replaces what was there.
\<close>

definition merge_value :: "pydict \<Rightarrow> string \<Rightarrow> pyval \<Rightarrow> error + pyval" where
  "merge_value d key value =
     (case value of
        PList vs \<Rightarrow>
          (case setdefault d key (PList []) of
             PList ds \<Rightarrow> Inr (PList (ds @ vs))
           | _ \<Rightarrow> Inl AttributeError)
      | PSet vs \<Rightarrow>
          (case setdefault d key (PSet []) of
             PSet ds \<Rightarrow> Inr (PSet (set_update ds vs))
           | PDict dd \<Rightarrow>
               (case dict_update_from_strings dd vs of Inl e \<Rightarrow> Inl e | Inr dd' \<Rightarrow> Inr (PDict dd'))
           | _ \<Rightarrow> Inl AttributeError)
      | PDict vs \<Rightarrow> update_dict_from_other (setdefault d key (PDict [])) vs
      | _ \<Rightarrow> Inr value)"

text \<open>
  A value as Python builds it: every mapping, at every depth, has each key once.
\<close>

fun distinct_keys :: "pyval \<Rightarrow> bool" where
  "distinct_keys (PDict d) = (distinct (map fst d) \<and> (\<forall>(k, v) \<in> set d. distinct_keys v))"
| "distinct_keys (PList xs) = (\<forall>x \<in> set xs. distinct_keys x)"
| "distinct_keys v = True"

text \<open>No key of any mapping of the value, at any depth, contains the character.\<close>

fun char_free_keys :: "char \<Rightarrow> pyval \<Rightarrow> bool" where
  "char_free_keys c (PDict d) = (\<forall>(k, v) \<in> set d. c \<notin> set k \<and> char_free_keys c v)"
| "char_free_keys c (PList xs) = (\<forall>x \<in> set xs. char_free_keys c x)"
| "char_free_keys c v = True"

text \<open>The entries of a mapping.\<close>

fun dict_items :: "pyval \<Rightarrow> pydict" where
  "dict_items (PDict d) = d"
| "dict_items v = []"

section \<open>The lookups of the diff against the defaults\<close>

text \<open>
  The keys of \<open>dct\<close> in the order in which \<open>remove_common_dict_items\<close> looks them up in
  the reference: each key of the mapping in iteration order, followed at once, when its
  value is a mapping, by the keys of that mapping. A key is given with the keys of the
  enclosing mappings before it, outermost first.
\<close>

function (sequential) key_paths :: "pydict \<Rightarrow> string list list" where
  "key_paths [] = []"
| "key_paths ((key, PDict sub) # dct) = [key] # map ((#) key) (key_paths sub) @ key_paths dct"
| "key_paths ((key, value) # dct) = [key] # key_paths dct"
  by pat_completeness auto
termination
  by (relation "measure (\<lambda>dct. size_list (size_prod (\<lambda>_. 0) size) dct)") auto

text \<open>
  \<open>reference_dct[k1][k2]...[kn]\<close>: the value of the reference at the level a path of keys
  leads to, or the error of the first subscript that fails.
\<close>

fun resolve :: "pyval \<Rightarrow> string list \<Rightarrow> error + pyval" where
  "resolve reference_dct [] = Inr reference_dct"
| "resolve reference_dct (key # path) =
     (case subscript reference_dct key of Inl e \<Rightarrow> Inl e | Inr v \<Rightarrow> resolve v path)"

text \<open>
  The precondition of the diff: every key of \<open>dct\<close> is, recursively through nested
  mappings, present in the reference at the corresponding level.
\<close>

definition covered :: "pydict \<Rightarrow> pyval \<Rightarrow> bool" where
  "covered dct reference_dct = list_all (\<lambda>path. \<not> isl (resolve reference_dct path)) (key_paths dct)"

text \<open>The first key of \<open>dct\<close>, in the order of the lookups, that the reference lacks.\<close>

definition first_failing_lookup :: "pydict \<Rightarrow> pyval \<Rightarrow> string list option" where
  "first_failing_lookup dct reference_dct =
     List.find (\<lambda>path. isl (resolve reference_dct path)) (key_paths dct)"

text \<open>
  Modelled from the spec: \<open>to_dict\<close>, the serialisation of a configuration object by its
  schema, is not among the sources. The spec's data model gives the mapping form one key
  per declared field, the nested sections (\<open>iac\<close>, \<open>sca\<close>, \<open>secret\<close>) being mappings of
  their own fields and every other field a scalar, a list or null. A schema is that shape:
  the fields in order, each a plain field or a section with its own fields.
\<close>

datatype schema = Field | Section "(string \<times> schema) list"

text \<open>
  Modelled from the spec: a mapping serialised from a schema has exactly the schema's
  fields, a mapping under each section and no mapping under a plain field.
\<close>

fun conforms :: "(string \<times> schema) list \<Rightarrow> pydict \<Rightarrow> bool" where
  "conforms [] [] = True"
| "conforms ((field_name, Field) # declared) ((key, value) # dct) =
     (field_name = key \<and> (case value of PDict sub \<Rightarrow> False | _ \<Rightarrow> True)
      \<and> conforms declared dct)"
| "conforms ((field_name, Section section_fields) # declared) ((key, value) # dct) =
     (field_name = key
      \<and> (case value of PDict sub \<Rightarrow> conforms section_fields sub | _ \<Rightarrow> False)
      \<and> conforms declared dct)"
| "conforms declared dct = False"

text \<open>
  The fields of \<open>UserConfig\<close> and of its sections, as the dataclasses declare them, without
  the fields that \<open>UserConfig.SCHEMA\<close> excludes (\<open>deprecation_messages\<close>,
  \<open>iac.outdated_ignored_paths\<close>, \<open>iac.outdated_ignored_policies\<close>).
\<close>

definition UserConfig_schema :: "(string \<times> schema) list" where
  "UserConfig_schema =
     [(''iac'', Section [(''ignored_paths'', Field), (''ignored_policies'', Field),
                         (''minimum_severity'', Field)]),
      (''instance'', Field),
      (''exit_zero'', Field),
      (''verbose'', Field),
      (''allow_self_signed'', Field),
      (''max_commits_for_hook'', Field),
      (''sca'', Section [(''ignored_paths'', Field), (''minimum_severity'', Field),
                         (''ignored_vulnerabilities'', Field), (''ignore_not_fixable'', Field),
                         (''ignore_fixable'', Field)]),
      (''secret'', Section [(''show_secrets'', Field), (''ignored_detectors'', Field),
                            (''ignored_matches'', Field), (''ignored_paths'', Field),
                            (''ignore_known_secrets'', Field)]),
      (''debug'', Field)]"

text \<open>
  \<open>UserConfig.to_config_dict\<close>, given the two serialisations it starts from: \<open>dct\<close> is
  \<open>self.to_dict()\<close> and \<open>default_dct\<close> is \<open>UserConfig.from_dict({}).to_dict()\<close>.
\<close>

definition to_config_dict :: "pydict \<Rightarrow> pydict \<Rightarrow> error + pyval" where
  "to_config_dict dct default_dct =
     (case remove_common_dict_items dct (PDict default_dct) of
        Inl e \<Rightarrow> Inl e
      | Inr diff \<Rightarrow>
          Inr (replace_in_keys
                 (PDict (AList.update ''version'' (PInt CURRENT_CONFIG_VERSION) diff))
                 (CHR ''_'') (CHR ''-'')))"

text \<open>
  A value of \<open>src\<close> can be merged over what \<open>dst\<close> holds under the same key: \<open>dst\<close> holds
  nothing there, or a list for a list, a set for a set, a mapping for a mapping whose own
  values can be merged in the same sense; a value that is not a collection replaces
  whatever is there.
\<close>

fun compatible_with :: "pyval option \<Rightarrow> pyval \<Rightarrow> bool" where
  "compatible_with None value = True"
| "compatible_with (Some (PList ds)) (PList vs) = True"
| "compatible_with (Some (PSet ds)) (PSet vs) = True"
| "compatible_with (Some (PDict dd)) (PDict vs) =
     (\<forall>(key, value) \<in> set vs. compatible_with (map_of dd key) value)"
| "compatible_with (Some existing) (PList vs) = False"
| "compatible_with (Some existing) (PSet vs) = False"
| "compatible_with (Some existing) (PDict vs) = False"
| "compatible_with (Some existing) value = True"

definition compatible :: "pydict \<Rightarrow> pydict \<Rightarrow> bool" where
  "compatible d src = (\<forall>(key, value) \<in> set src. compatible_with (map_of d key) value)"

text \<open>
  The keys found at one nesting depth of a value: at depth 0 the keys of the mapping
  itself, one level deeper the keys of the mappings it holds as values. A list stands for
  its elements, so the mappings inside a list value are one level below the mapping that
  holds the list.
\<close>

fun keys_at_depth :: "nat \<Rightarrow> pyval \<Rightarrow> string set" where
  "keys_at_depth 0 (PDict d) = fst ` set d"
| "keys_at_depth (Suc n) (PDict d) = (\<Union>(k, v) \<in> set d. keys_at_depth n v)"
| "keys_at_depth n (PList xs) = (\<Union>x \<in> set xs. keys_at_depth n x)"
| "keys_at_depth n v = {}"

(*DEFS-END*)

section \<open>The expiry sweep partitions the list\<close>

lemma is_expired_aware:
  "aware_until e \<Longrightarrow> is_expired now e = Inr (expired_at now e)"
  by (cases "until e"; cases "the (until e)")
     (auto simp: aware_until_def is_expired_def expired_at_def)

lemma is_expired_naive:
  "\<not> aware_until e \<Longrightarrow> is_expired now e = Inl TypeError"
  by (cases "until e"; cases "the (until e)")
     (auto simp: aware_until_def is_expired_def)

text \<open>
  The loop invariant: after the iterations for the indices at and above \<open>n\<close>, the first
  \<open>n\<close> positions of the list are untouched and still to be visited.
\<close>

lemma sweep_partition:
  "n \<le> length lst \<Longrightarrow> \<forall>e \<in> set (take n lst). aware_until e \<Longrightarrow>
   sweep now n lst expired =
     Inr (filter (\<lambda>e. \<not> expired_at now e) (take n lst) @ drop n lst,
          filter (expired_at now) (take n lst) @ expired)"
proof (induction n arbitrary: lst expired)
  case 0
  then show ?case by simp
next
  case (Suc n)
  have lt: "n < length lst" using Suc.prems by simp
  have tk: "take (Suc n) lst = take n lst @ [lst ! n]"
    using lt by (simp add: take_Suc_conv_app_nth)
  have aw: "aware_until (lst ! n)" using Suc.prems(2) tk by simp
  have aw': "\<forall>e \<in> set (take n lst). aware_until e" using Suc.prems(2) tk by simp
  show ?case
  proof (cases "expired_at now (lst ! n)")
    case True
    let ?l = "take n lst @ drop (Suc n) lst"
    have len: "n \<le> length ?l" using lt by simp
    have t: "take n ?l = take n lst" using lt by simp
    have d: "drop n ?l = drop (Suc n) lst" using lt by simp
    have aw'': "\<forall>e \<in> set (take n ?l). aware_until e" using aw' by (simp only: t)
    have "sweep now n ?l (lst ! n # expired) =
      Inr (filter (\<lambda>e. \<not> expired_at now e) (take n ?l) @ drop n ?l,
          filter (expired_at now) (take n ?l) @ (lst ! n # expired))"
      by (rule Suc.IH[OF len aw''])
    then have "sweep now n ?l (lst ! n # expired) =
      Inr (filter (\<lambda>e. \<not> expired_at now e) (take n lst) @ drop (Suc n) lst,
          filter (expired_at now) (take n lst) @ (lst ! n # expired))"
      by (simp only: t d)
    then show ?thesis using True aw tk
      by (simp add: is_expired_aware)
  next
    case False
    have "sweep now n lst expired =
      Inr (filter (\<lambda>e. \<not> expired_at now e) (take n lst) @ drop n lst,
          filter (expired_at now) (take n lst) @ expired)"
      using Suc.IH[of lst expired] lt aw' by simp
    then show ?thesis using False aw tk lt
      by (simp add: is_expired_aware Cons_nth_drop_Suc)
  qed
qed

text \<open>
  An element whose \<open>until\<close> is a naive datetime cannot be compared with \<open>now\<close>: the sweep
  raises as soon as it meets one.
\<close>

lemma sweep_naive:
  "n \<le> length lst \<Longrightarrow> \<exists>e \<in> set (take n lst). \<not> aware_until e \<Longrightarrow>
   sweep now n lst expired = Inl TypeError"
proof (induction n arbitrary: lst expired)
  case 0
  then show ?case by simp
next
  case (Suc n)
  have lt: "n < length lst" using Suc.prems by simp
  have tk: "take (Suc n) lst = take n lst @ [lst ! n]"
    using lt by (simp add: take_Suc_conv_app_nth)
  show ?case
  proof (cases "aware_until (lst ! n)")
    case False
    then show ?thesis by (simp add: is_expired_naive)
  next
    case True
    then have ex: "\<exists>e \<in> set (take n lst). \<not> aware_until e" using Suc.prems(2) tk by auto
    let ?l = "take n lst @ drop (Suc n) lst"
    have len: "n \<le> length ?l" using lt by simp
    have t: "take n ?l = take n lst" using lt by simp
    have ex': "\<exists>e \<in> set (take n ?l). \<not> aware_until e" using ex by (simp only: t)
    have 1: "sweep now n ?l (lst ! n # expired) = Inl TypeError"
      by (rule Suc.IH[OF len ex'])
    have 2: "sweep now n lst expired = Inl TypeError"
      using Suc.IH[of lst] ex lt by simp
    show ?thesis using True 1 2
      by (cases "expired_at now (lst ! n)") (simp_all add: is_expired_aware)
  qed
qed

lemma remove_expired_elements_naive:
  "\<exists>e \<in> set lst. \<not> aware_until e \<Longrightarrow> remove_expired_elements now lst = Inl TypeError"
  unfolding remove_expired_elements_def using sweep_naive[of "length lst" lst now "[]"] by simp

text \<open>
  Claim C3. For a list of ignore elements whose \<open>until\<close> values, where set, are comparable
  with the current UTC time (timezone-aware, as loading leaves them), the expiry sweep
  returns normally; the list left in place is exactly the non-expired elements in their
  original relative order, the list returned is exactly the expired elements in their
  original relative order; with \<open>k\<close> expired elements among \<open>n\<close> the two lists have the
  lengths \<open>n - k\<close> and \<open>k\<close>; no element is in both lists and every element is in one.
\<close>

theorem remove_expired_elements_partition:
  fixes lst :: "'a ConfigIgnoredElement_scheme list"
  assumes "\<forall>e \<in> set lst. aware_until e"
  shows "\<exists>active expired.
     remove_expired_elements now lst = Inr (active, expired)
   \<and> active = filter (\<lambda>e. \<not> expired_at now e) lst
   \<and> expired = filter (expired_at now) lst
   \<and> length expired = length (filter (expired_at now) lst)
   \<and> length active = length lst - length (filter (expired_at now) lst)
   \<and> subseq active lst \<and> subseq expired lst
   \<and> set active \<inter> set expired = {}
   \<and> set active \<union> set expired = set lst
   \<and> length active + length expired = length lst"
proof -
  have "remove_expired_elements now lst =
     Inr (filter (\<lambda>e. \<not> expired_at now e) lst, filter (expired_at now) lst)"
    unfolding remove_expired_elements_def
    using sweep_partition[of "length lst" lst now "[]"] assms by simp
  moreover have "length (filter (\<lambda>e. \<not> expired_at now e) lst)
      = length lst - length (filter (expired_at now) lst)"
    using sum_length_filter_compl[of "expired_at now" lst] by simp
  moreover have "length (filter (\<lambda>e. \<not> expired_at now e) lst)
      + length (filter (expired_at now) lst) = length lst"
    using sum_length_filter_compl[of "expired_at now" lst] by simp
  ultimately show ?thesis by auto
qed

theorem remove_expired_elements_partition_witness:
  "aware_until \<lparr>comment = None, until = Some (Aware 5 0)\<rparr>
   \<and> aware_until \<lparr>comment = Some ''kept'', until = None\<rparr>
   \<and> aware_until \<lparr>comment = None, until = Some (Aware 7200 3600)\<rparr>
   \<and> aware_until \<lparr>comment = None, until = Some (Aware 20 0)\<rparr>
   \<and> remove_expired_elements 10
        [\<lparr>comment = None, until = Some (Aware 5 0)\<rparr>,
         \<lparr>comment = Some ''kept'', until = None\<rparr>,
         \<lparr>comment = None, until = Some (Aware 7200 3600)\<rparr>,
         \<lparr>comment = None, until = Some (Aware 20 0)\<rparr>]
     = Inr ([\<lparr>comment = Some ''kept'', until = None\<rparr>,
             \<lparr>comment = None, until = Some (Aware 7200 3600)\<rparr>,
             \<lparr>comment = None, until = Some (Aware 20 0)\<rparr>],
            [\<lparr>comment = None, until = Some (Aware 5 0)\<rparr>])"
  using remove_expired_elements_partition
    [of "[\<lparr>comment = None, until = Some (Aware 5 0)\<rparr>,
          \<lparr>comment = Some ''kept'', until = None\<rparr>,
          \<lparr>comment = None, until = Some (Aware 7200 3600)\<rparr>,
          \<lparr>comment = None, until = Some (Aware 20 0)\<rparr>]" 10]
  by (simp add: aware_until_def expired_at_def)

section \<open>\<open>add_ignored_match\<close> keeps one entry per match\<close>

lemma add_ignored_match_loop_fresh:
  "match secret \<notin> match ` set ms \<Longrightarrow> add_ignored_match_loop ms secret = None"
  by (induction ms) auto

lemma backfill_other:
  "match secret \<notin> match ` set ms \<Longrightarrow> map (backfill secret) ms = ms"
  by (induction ms) (auto simp: backfill_def)

lemma add_ignored_match_loop_found:
  "match secret \<in> match ` set ms \<Longrightarrow> distinct (map match ms) \<Longrightarrow>
   add_ignored_match_loop ms secret = Some (map (backfill secret) ms)"
proof (induction ms)
  case Nil
  then show ?case by simp
next
  case (Cons m ms)
  show ?case
  proof (cases "match m = match secret")
    case True
    then have "match secret \<notin> match ` set ms" using Cons.prems(2) by auto
    then have r: "map (backfill secret) ms = ms" by (rule backfill_other)
    have b: "backfill secret m =
        (if name m = None \<or> name m = Some [] then m\<lparr>name := name secret\<rparr> else m)"
      using True by (simp add: backfill_def)
    show ?thesis using True r b by simp
  next
    case False
    then have "match secret \<in> match ` set ms" using Cons.prems(1) by auto
    then have r: "add_ignored_match_loop ms secret = Some (map (backfill secret) ms)"
      using Cons.IH Cons.prems(2) by simp
    have b: "backfill secret m = m" using False by (simp add: backfill_def)
    show ?thesis using False r b by simp
  qed
qed

lemma match_backfill: "match (backfill secret m) = match m"
  by (simp add: backfill_def)

text \<open>
  Claim C9. If the list holds at most one entry per \<open>match\<close> value, it still does after
  \<open>add_ignored_match\<close>. Adding an entry whose \<open>match\<close> is already present appends
  nothing: the list keeps its length and its \<open>match\<close> values, and the existing entry takes
  the new name only if its own name was empty (a name it already has is kept, whatever the
  new entry's name). Adding an entry with a fresh \<open>match\<close> appends it at the end.
\<close>

theorem add_ignored_match_one_entry_per_match:
  assumes "distinct (map match ignored_matches)"
  shows "distinct (map match (add_ignored_match ignored_matches secret))
    \<and> (match secret \<in> match ` set ignored_matches \<longrightarrow>
         add_ignored_match ignored_matches secret = map (backfill secret) ignored_matches
       \<and> length (add_ignored_match ignored_matches secret) = length ignored_matches
       \<and> map match (add_ignored_match ignored_matches secret) = map match ignored_matches)
    \<and> (match secret \<notin> match ` set ignored_matches \<longrightarrow>
         add_ignored_match ignored_matches secret = ignored_matches @ [secret])"
proof (cases "match secret \<in> match ` set ignored_matches")
  case True
  have eq: "add_ignored_match ignored_matches secret = map (backfill secret) ignored_matches"
    using add_ignored_match_loop_found[OF True assms] by (simp add: add_ignored_match_def)
  have m: "map match (map (backfill secret) ignored_matches) = map match ignored_matches"
    by (simp add: match_backfill)
  have d: "distinct (map match (add_ignored_match ignored_matches secret))"
    using assms by (simp only: eq m)
  have l: "length (add_ignored_match ignored_matches secret) = length ignored_matches"
    by (simp only: eq length_map)
  have mm: "map match (add_ignored_match ignored_matches secret) = map match ignored_matches"
    by (simp only: eq m)
  show ?thesis using True eq d l mm by blast
next
  case False
  have eq: "add_ignored_match ignored_matches secret = ignored_matches @ [secret]"
    using add_ignored_match_loop_fresh[OF False] by (simp add: add_ignored_match_def)
  show ?thesis using False eq assms by auto
qed

theorem add_ignored_match_one_entry_per_match_witness:
  "distinct (map match [\<lparr>name = Some [], match = ''aaa''\<rparr>, \<lparr>name = Some ''old'', match = ''bbb''\<rparr>])
   \<and> add_ignored_match [\<lparr>name = Some [], match = ''aaa''\<rparr>, \<lparr>name = Some ''old'', match = ''bbb''\<rparr>]
        \<lparr>name = Some ''new'', match = ''aaa''\<rparr>
      = [\<lparr>name = Some ''new'', match = ''aaa''\<rparr>, \<lparr>name = Some ''old'', match = ''bbb''\<rparr>]
   \<and> add_ignored_match [\<lparr>name = Some [], match = ''aaa''\<rparr>, \<lparr>name = Some ''old'', match = ''bbb''\<rparr>]
        \<lparr>name = Some ''new'', match = ''bbb''\<rparr>
      = [\<lparr>name = Some [], match = ''aaa''\<rparr>, \<lparr>name = Some ''old'', match = ''bbb''\<rparr>]
   \<and> add_ignored_match [\<lparr>name = Some [], match = ''aaa''\<rparr>, \<lparr>name = Some ''old'', match = ''bbb''\<rparr>]
        \<lparr>name = Some ''new'', match = ''ccc''\<rparr>
      = [\<lparr>name = Some [], match = ''aaa''\<rparr>, \<lparr>name = Some ''old'', match = ''bbb''\<rparr>,
         \<lparr>name = Some ''new'', match = ''ccc''\<rparr>]"
  using add_ignored_match_one_entry_per_match
    [of "[\<lparr>name = Some [], match = ''aaa''\<rparr>, \<lparr>name = Some ''old'', match = ''bbb''\<rparr>]"
        "\<lparr>name = Some ''new'', match = ''aaa''\<rparr>"]
    add_ignored_match_one_entry_per_match
    [of "[\<lparr>name = Some [], match = ''aaa''\<rparr>, \<lparr>name = Some ''old'', match = ''bbb''\<rparr>]"
        "\<lparr>name = Some ''new'', match = ''bbb''\<rparr>"]
    add_ignored_match_one_entry_per_match
    [of "[\<lparr>name = Some [], match = ''aaa''\<rparr>, \<lparr>name = Some ''old'', match = ''bbb''\<rparr>]"
        "\<lparr>name = Some ''new'', match = ''ccc''\<rparr>"]
  by (simp add: backfill_def)

section \<open>The merge works name by name\<close>

lemma update_dict_from_other_head:
  "update_dict_from_other (PDict d) ((key, value) # src) =
     (if value = PNone then update_dict_from_other (PDict d) src
      else case merge_value d key value of
             Inl e \<Rightarrow> Inl e
           | Inr m \<Rightarrow> update_dict_from_other (PDict (AList.update key m d)) src)"
  by (cases "value") (auto simp: merge_value_def split: pyval.splits sum.splits)

lemma update_dict_from_other_is_dict:
  "update_dict_from_other (PDict d) src = Inr r \<Longrightarrow> \<exists>d'. r = PDict d'"
proof (induction src arbitrary: d)
  case Nil
  then show ?case by auto
next
  case (Cons entry src)
  obtain key "value" where entry: "entry = (key, value)" by (cases entry)
  show ?case using Cons entry
    by (auto simp: update_dict_from_other_head split: if_splits sum.splits)
qed

lemma setdefault_update_other:
  "key \<noteq> k \<Longrightarrow> setdefault (AList.update k m d) key x = setdefault d key x"
  by (simp add: setdefault_def update_conv')

lemma merge_value_update_other:
  "key \<noteq> k \<Longrightarrow> merge_value (AList.update k m d) key value = merge_value d key value"
  by (cases "value") (simp_all add: merge_value_def setdefault_update_other)

lemma update_dict_from_other_lookup:
  "distinct (map fst src) \<Longrightarrow> update_dict_from_other (PDict d) src = Inr (PDict d') \<Longrightarrow>
   map_of d' key =
     (case map_of src key of
        None \<Rightarrow> map_of d key
      | Some value \<Rightarrow>
          if value = PNone then map_of d key
          else (case merge_value d key value of Inl e \<Rightarrow> None | Inr m \<Rightarrow> Some m))"
proof (induction src arbitrary: d)
  case Nil
  then show ?case by simp
next
  case (Cons entry src)
  obtain k v where entry: "entry = (k, v)" by (cases entry)
  have dist: "distinct (map fst src)" and fresh: "map_of src k = None"
    using Cons.prems(1) entry by (auto simp: map_of_eq_None_iff)
  show ?case
  proof (cases "v = PNone")
    case True
    then have run: "update_dict_from_other (PDict d) src = Inr (PDict d')"
      using Cons.prems(2) entry by (simp add: update_dict_from_other_head)
    show ?thesis using Cons.IH[OF dist run] entry True fresh by simp
  next
    case False
    then obtain m where m: "merge_value d k v = Inr m"
      and run: "update_dict_from_other (PDict (AList.update k m d)) src = Inr (PDict d')"
      using Cons.prems(2) entry
      by (auto simp: update_dict_from_other_head split: sum.splits)
    note ih = Cons.IH[OF dist run]
    show ?thesis
    proof (cases "key = k")
      case True
      then show ?thesis using ih entry False fresh m by (simp add: update_conv')
    next
      case False
      then show ?thesis using ih entry
        by (simp add: update_conv' merge_value_update_other split: option.splits)
    qed
  qed
qed


lemma update_dict_from_other_keeps_keys:
  "update_dict_from_other (PDict d) src = Inr (PDict d') \<Longrightarrow> key \<in> fst ` set d \<Longrightarrow>
   key \<in> fst ` set d'"
proof (induction src arbitrary: d)
  case Nil
  then show ?case by simp
next
  case (Cons entry src)
  obtain k v where entry: "entry = (k, v)" by (cases entry)
  show ?case
  proof (cases "v = PNone")
    case True
    then show ?thesis using Cons entry by (simp add: update_dict_from_other_head)
  next
    case False
    then obtain m where run: "update_dict_from_other (PDict (AList.update k m d)) src = Inr (PDict d')"
      using Cons.prems(1) entry by (auto simp: update_dict_from_other_head split: sum.splits)
    have "key \<in> fst ` set (AList.update k m d)"
      using Cons.prems(2) by (simp add: dom_update)
    then show ?thesis using Cons.IH[OF run] by simp
  qed
qed

lemma update_dict_from_other_assigns:
  "update_dict_from_other (PDict d) src = Inr (PDict d') \<Longrightarrow> (key, value) \<in> set src \<Longrightarrow>
   value \<noteq> PNone \<Longrightarrow> key \<in> fst ` set d'"
proof (induction src arbitrary: d)
  case Nil
  then show ?case by simp
next
  case (Cons entry src)
  obtain k v where entry: "entry = (k, v)" by (cases entry)
  show ?case
  proof (cases "v = PNone")
    case True
    then show ?thesis using Cons entry by (auto simp: update_dict_from_other_head)
  next
    case False
    then obtain m where run: "update_dict_from_other (PDict (AList.update k m d)) src = Inr (PDict d')"
      using Cons.prems(1) entry by (auto simp: update_dict_from_other_head split: sum.splits)
    show ?thesis
    proof (cases "(key, value) = (k, v)")
      case True
      have "key \<in> fst ` set (AList.update k m d)" using True by (simp add: dom_update)
      then show ?thesis using update_dict_from_other_keeps_keys[OF run] by simp
    next
      case False
      then have "(key, value) \<in> set src" using Cons.prems(2) entry by auto
      then show ?thesis using Cons.IH[OF run] Cons.prems(3) by simp
    qed
  qed
qed

text \<open>
  The merge returns as soon as the value under each name can be merged: it does not
  depend on the order of \<open>src\<close>.
\<close>

lemma update_dict_from_other_returns:
  "distinct (map fst src) \<Longrightarrow>
   \<forall>(key, value) \<in> set src. value \<noteq> PNone \<longrightarrow> (\<exists>m. merge_value d key value = Inr m) \<Longrightarrow>
   \<exists>d'. update_dict_from_other (PDict d) src = Inr (PDict d')"
proof (induction src arbitrary: d)
  case Nil
  then show ?case by simp
next
  case (Cons entry src)
  obtain k v where entry: "entry = (k, v)" by (cases entry)
  have dist: "distinct (map fst src)" and fresh: "k \<notin> fst ` set src"
    using Cons.prems(1) entry by auto
  show ?case
  proof (cases "v = PNone")
    case True
    have "\<forall>(key, value) \<in> set src. value \<noteq> PNone \<longrightarrow> (\<exists>m. merge_value d key value = Inr m)"
      using Cons.prems(2) by auto
    then show ?thesis using Cons.IH[OF dist] entry True
      by (simp add: update_dict_from_other_head)
  next
    case False
    then obtain m where m: "merge_value d k v = Inr m"
      using Cons.prems(2) entry by auto
    have "\<forall>(key, value) \<in> set src. value \<noteq> PNone \<longrightarrow>
            (\<exists>m'. merge_value (AList.update k m d) key value = Inr m')"
    proof (clarify)
      fix key "value"
      assume in_src: "(key, value) \<in> set src" and nn: "value \<noteq> PNone"
      then have "key \<noteq> k" using fresh by force
      moreover have "\<exists>m'. merge_value d key value = Inr m'"
        using Cons.prems(2) in_src nn by auto
      ultimately show "\<exists>m'. merge_value (AList.update k m d) key value = Inr m'"
        by (simp add: merge_value_update_other)
    qed
    then show ?thesis using Cons.IH[OF dist, of "AList.update k m d"] entry False m
      by (simp add: update_dict_from_other_head)
  qed
qed

lemma set_set_update: "set (set_update ds vs) = set ds \<union> set vs"
  by (auto simp: set_update_def)

lemma distinct_keys_value:
  "distinct_keys (PDict d) \<Longrightarrow> (k, v) \<in> set d \<Longrightarrow> distinct_keys v"
  by auto

lemma compatible_merge_value:
  assumes "compatible_with (map_of d key) value"
    and "\<And>dd vs. value = PDict vs \<Longrightarrow> map_of d key = Some (PDict dd) \<Longrightarrow>
           \<exists>sub. update_dict_from_other (PDict dd) vs = Inr sub"
    and "\<And>vs. value = PDict vs \<Longrightarrow> map_of d key = None \<Longrightarrow>
           \<exists>sub. update_dict_from_other (PDict []) vs = Inr sub"
  shows "\<exists>m. merge_value d key value = Inr m"
proof (cases "map_of d key")
  case None
  then show ?thesis using assms(3)
    by (cases "value") (auto simp: merge_value_def setdefault_def)
next
  case (Some existing)
  then show ?thesis using assms(1,2)
    by (cases "value"; cases existing) (auto simp: merge_value_def setdefault_def)
qed

lemma compatible_returns:
  "distinct_keys (PDict src) \<Longrightarrow> compatible d src \<Longrightarrow>
   \<exists>d'. update_dict_from_other (PDict d) src = Inr (PDict d')"
proof (induction "size_list (size_prod (\<lambda>_. 0) size) src" arbitrary: d src rule: less_induct)
  case less
  have dist: "distinct (map fst src)" using less.prems(1) by simp
  have "\<forall>(key, value) \<in> set src. value \<noteq> PNone \<longrightarrow> (\<exists>m. merge_value d key value = Inr m)"
  proof (clarify)
    fix key "value"
    assume mem: "(key, value) \<in> set src"
    have c: "compatible_with (map_of d key) value"
      using less.prems(2) mem by (auto simp: compatible_def)
    have inner: "\<exists>sub. update_dict_from_other (PDict dd) vs = Inr sub"
      if v: "value = PDict vs" and cc: "compatible dd vs" for dd vs
    proof -
      have small: "size_list (size_prod (\<lambda>_. 0) size) vs < size_list (size_prod (\<lambda>_. 0) size) src"
        using mem v by (induction src) auto
      have "distinct_keys (PDict vs)" using distinct_keys_value[OF less.prems(1) mem] v by simp
      then show ?thesis using less.hyps[OF small _ cc] by blast
    qed
    show "\<exists>m. merge_value d key value = Inr m"
    proof (rule compatible_merge_value[OF c])
      fix dd vs assume "value = PDict vs" "map_of d key = Some (PDict dd)"
      then show "\<exists>sub. update_dict_from_other (PDict dd) vs = Inr sub"
        using inner[of vs dd] c by (simp add: compatible_def)
    next
      fix vs assume "value = PDict vs" "map_of d key = None"
      then show "\<exists>sub. update_dict_from_other (PDict []) vs = Inr sub"
        using inner[of vs "[]"] by (simp add: compatible_def)
    qed
  qed
  then show ?case using update_dict_from_other_returns[OF dist] by blast
qed


text \<open>
  Claim C2, as amended. For a destination and a source mapping (each key once, at every
  depth) such that \<open>dst\<close> holds, under each key whose value in \<open>src\<close> is a list, a set or a
  mapping, either nothing or a value of the same kind, the merge returns a mapping in
  which: a name that \<open>src\<close> does not have, or has with a null value, keeps what \<open>dst\<close> had
  under it (nothing, if \<open>dst\<close> had nothing); a list value of \<open>src\<close> is appended to the list
  of \<open>dst\<close>, and stands alone if \<open>dst\<close> had none; a set value is united with the set of
  \<open>dst\<close>, and stands alone if \<open>dst\<close> had none; a mapping value is merged, by the same
  function, into the mapping of \<open>dst\<close>, or into an empty mapping if \<open>dst\<close> had none; any
  other value takes the place of the value of \<open>dst\<close>.
\<close>

theorem update_dict_from_other_merges_compatible:
  assumes "distinct_keys (PDict src)"
    and "compatible d src"
  shows "\<exists>d'. update_dict_from_other (PDict d) src = Inr (PDict d')
    \<and> (\<forall>key. map_of src key = None \<longrightarrow> map_of d' key = map_of d key)
    \<and> (\<forall>key. map_of src key = Some PNone \<longrightarrow> map_of d' key = map_of d key)
    \<and> (\<forall>key vs. map_of src key = Some (PList vs) \<longrightarrow> map_of d key = None \<longrightarrow>
          map_of d' key = Some (PList vs))
    \<and> (\<forall>key vs ds. map_of src key = Some (PList vs) \<longrightarrow> map_of d key = Some (PList ds) \<longrightarrow>
          map_of d' key = Some (PList (ds @ vs)))
    \<and> (\<forall>key vs. map_of src key = Some (PSet vs) \<longrightarrow> map_of d key = None \<longrightarrow>
          (\<exists>zs. map_of d' key = Some (PSet zs) \<and> set zs = set vs))
    \<and> (\<forall>key vs ds. map_of src key = Some (PSet vs) \<longrightarrow> map_of d key = Some (PSet ds) \<longrightarrow>
          (\<exists>zs. map_of d' key = Some (PSet zs) \<and> set zs = set ds \<union> set vs))
    \<and> (\<forall>key vs. map_of src key = Some (PDict vs) \<longrightarrow> map_of d key = None \<longrightarrow>
          (\<exists>sub. update_dict_from_other (PDict []) vs = Inr (PDict sub)
                \<and> map_of d' key = Some (PDict sub)))
    \<and> (\<forall>key vs dd. map_of src key = Some (PDict vs) \<longrightarrow> map_of d key = Some (PDict dd) \<longrightarrow>
          (\<exists>sub. update_dict_from_other (PDict dd) vs = Inr (PDict sub)
                \<and> map_of d' key = Some (PDict sub)))
    \<and> (\<forall>key b. map_of src key = Some (PBool b) \<longrightarrow> map_of d' key = Some (PBool b))
    \<and> (\<forall>key i. map_of src key = Some (PInt i) \<longrightarrow> map_of d' key = Some (PInt i))
    \<and> (\<forall>key s. map_of src key = Some (PStr s) \<longrightarrow> map_of d' key = Some (PStr s))"
proof -
  have dist: "distinct (map fst src)" using assms(1) by simp
  obtain d' where run: "update_dict_from_other (PDict d) src = Inr (PDict d')"
    using compatible_returns[OF assms] by blast
  note look = update_dict_from_other_lookup[OF dist run]
  have ok: "\<exists>m. merge_value d key value = Inr m \<and> map_of d' key = Some m"
    if "map_of src key = Some value" "value \<noteq> PNone" for key "value"
  proof -
    have mem: "(key, value) \<in> set src" using that(1) by (rule map_of_SomeD)
    have "\<exists>m. merge_value d key value = Inr m"
    proof (rule ccontr)
      assume "\<not> (\<exists>m. merge_value d key value = Inr m)"
      then obtain e where e: "merge_value d key value = Inl e"
        by (cases "merge_value d key value") auto
      have "map_of d' key = None" using look[of key] that e by simp
      moreover have "key \<in> fst ` set d'"
        using update_dict_from_other_assigns[OF run mem that(2)] .
      ultimately show False by (simp add: map_of_eq_None_iff)
    qed
    then show ?thesis using look[of key] that by auto
  qed
  have none: "\<forall>key. map_of src key = None \<longrightarrow> map_of d' key = map_of d key"
    using look by simp
  have null: "\<forall>key. map_of src key = Some PNone \<longrightarrow> map_of d' key = map_of d key"
    using look by simp
  have lists_new: "\<forall>key vs. map_of src key = Some (PList vs) \<longrightarrow> map_of d key = None \<longrightarrow>
          map_of d' key = Some (PList vs)"
  proof (intro allI impI)
    fix key vs assume h: "map_of src key = Some (PList vs)" and n: "map_of d key = None"
    obtain m where m: "merge_value d key (PList vs) = Inr m" "map_of d' key = Some m"
      using ok[OF h] by auto
    then show "map_of d' key = Some (PList vs)"
      using n by (simp add: merge_value_def setdefault_def)
  qed
  have lists_old: "\<forall>key vs ds. map_of src key = Some (PList vs) \<longrightarrow>
          map_of d key = Some (PList ds) \<longrightarrow> map_of d' key = Some (PList (ds @ vs))"
  proof (intro allI impI)
    fix key vs ds
    assume h: "map_of src key = Some (PList vs)" and n: "map_of d key = Some (PList ds)"
    obtain m where m: "merge_value d key (PList vs) = Inr m" "map_of d' key = Some m"
      using ok[OF h] by auto
    then show "map_of d' key = Some (PList (ds @ vs))"
      using n by (simp add: merge_value_def setdefault_def)
  qed
  have sets_new: "\<forall>key vs. map_of src key = Some (PSet vs) \<longrightarrow> map_of d key = None \<longrightarrow>
          (\<exists>zs. map_of d' key = Some (PSet zs) \<and> set zs = set vs)"
  proof (intro allI impI)
    fix key vs assume h: "map_of src key = Some (PSet vs)" and n: "map_of d key = None"
    obtain m where m: "merge_value d key (PSet vs) = Inr m" "map_of d' key = Some m"
      using ok[OF h] by auto
    then have "m = PSet (set_update [] vs)" using n by (simp add: merge_value_def setdefault_def)
    then show "\<exists>zs. map_of d' key = Some (PSet zs) \<and> set zs = set vs"
      using m(2) set_set_update[of "[]" vs] by simp
  qed
  have sets_old: "\<forall>key vs ds. map_of src key = Some (PSet vs) \<longrightarrow>
          map_of d key = Some (PSet ds) \<longrightarrow>
          (\<exists>zs. map_of d' key = Some (PSet zs) \<and> set zs = set ds \<union> set vs)"
  proof (intro allI impI)
    fix key vs ds
    assume h: "map_of src key = Some (PSet vs)" and n: "map_of d key = Some (PSet ds)"
    obtain m where m: "merge_value d key (PSet vs) = Inr m" "map_of d' key = Some m"
      using ok[OF h] by auto
    then have "m = PSet (set_update ds vs)" using n by (simp add: merge_value_def setdefault_def)
    then show "\<exists>zs. map_of d' key = Some (PSet zs) \<and> set zs = set ds \<union> set vs"
      using m(2) set_set_update[of ds vs] by simp
  qed
  have dicts_new: "\<forall>key vs. map_of src key = Some (PDict vs) \<longrightarrow> map_of d key = None \<longrightarrow>
          (\<exists>sub. update_dict_from_other (PDict []) vs = Inr (PDict sub)
                \<and> map_of d' key = Some (PDict sub))"
  proof (intro allI impI)
    fix key vs assume h: "map_of src key = Some (PDict vs)" and n: "map_of d key = None"
    obtain m where m: "merge_value d key (PDict vs) = Inr m" "map_of d' key = Some m"
      using ok[OF h] by auto
    then have u: "update_dict_from_other (PDict []) vs = Inr m"
      using n by (simp add: merge_value_def setdefault_def)
    then obtain sub where "m = PDict sub" using update_dict_from_other_is_dict by blast
    then show "\<exists>sub. update_dict_from_other (PDict []) vs = Inr (PDict sub)
                \<and> map_of d' key = Some (PDict sub)"
      using u m(2) by simp
  qed
  have dicts_old: "\<forall>key vs dd. map_of src key = Some (PDict vs) \<longrightarrow>
          map_of d key = Some (PDict dd) \<longrightarrow>
          (\<exists>sub. update_dict_from_other (PDict dd) vs = Inr (PDict sub)
                \<and> map_of d' key = Some (PDict sub))"
  proof (intro allI impI)
    fix key vs dd
    assume h: "map_of src key = Some (PDict vs)" and n: "map_of d key = Some (PDict dd)"
    obtain m where m: "merge_value d key (PDict vs) = Inr m" "map_of d' key = Some m"
      using ok[OF h] by auto
    then have u: "update_dict_from_other (PDict dd) vs = Inr m"
      using n by (simp add: merge_value_def setdefault_def)
    then obtain sub where "m = PDict sub" using update_dict_from_other_is_dict by blast
    then show "\<exists>sub. update_dict_from_other (PDict dd) vs = Inr (PDict sub)
                \<and> map_of d' key = Some (PDict sub)"
      using u m(2) by simp
  qed
  have bools: "\<forall>key b. map_of src key = Some (PBool b) \<longrightarrow> map_of d' key = Some (PBool b)"
    using ok by (fastforce simp: merge_value_def)
  have ints: "\<forall>key i. map_of src key = Some (PInt i) \<longrightarrow> map_of d' key = Some (PInt i)"
    using ok by (fastforce simp: merge_value_def)
  have strs: "\<forall>key s. map_of src key = Some (PStr s) \<longrightarrow> map_of d' key = Some (PStr s)"
    using ok by (fastforce simp: merge_value_def)
  show ?thesis
    using run none null lists_new lists_old sets_new sets_old dicts_new dicts_old bools ints strs
    by blast
qed

text \<open>
  The two layers of the specification's examples, merged in one call with a list that
  \<open>dst\<close> lacks: the local set is united with the global one, the list is created, the
  local scalar replaces the global one, and the null entry changes nothing.
\<close>

theorem update_dict_from_other_merges_compatible_witness:
  "distinct_keys (PDict [(''secret'', PDict [(''ignored_paths'', PSet [''b'']),
                                            (''ignored_matches'', PList [PStr ''m''])]),
                        (''instance'', PStr ''y''), (''debug'', PNone)])
   \<and> compatible
        [(''secret'', PDict [(''ignored_paths'', PSet [''a''])]), (''instance'', PStr ''x'')]
        [(''secret'', PDict [(''ignored_paths'', PSet [''b'']),
                             (''ignored_matches'', PList [PStr ''m''])]),
         (''instance'', PStr ''y''), (''debug'', PNone)]
   \<and> update_dict_from_other
        (PDict [(''secret'', PDict [(''ignored_paths'', PSet [''a''])]), (''instance'', PStr ''x'')])
        [(''secret'', PDict [(''ignored_paths'', PSet [''b'']),
                             (''ignored_matches'', PList [PStr ''m''])]),
         (''instance'', PStr ''y''), (''debug'', PNone)]
     = Inr (PDict [(''secret'', PDict [(''ignored_paths'', PSet [''a'', ''b'']),
                                       (''ignored_matches'', PList [PStr ''m''])]),
                   (''instance'', PStr ''y'')])"
  using update_dict_from_other_merges_compatible
    [of "[(''secret'', PDict [(''ignored_paths'', PSet [''b'']),
                              (''ignored_matches'', PList [PStr ''m''])]),
          (''instance'', PStr ''y''), (''debug'', PNone)]"
        "[(''secret'', PDict [(''ignored_paths'', PSet [''a''])]), (''instance'', PStr ''x'')]"]
  by (simp add: compatible_def setdefault_def set_update_def)

text \<open>
  The claim as stated fails for a destination that holds, under a key of \<open>src\<close>, a value
  of another kind: a list cannot extend a string, and the call raises; a set merged over
  a mapping is not united with anything, its two-character elements become entries of the
  mapping, and an element of another length makes the call raise.
\<close>

theorem update_dict_from_other_kind_mismatch_counterexample:
  "update_dict_from_other (PDict [(''l'', PStr ''str'')]) [(''l'', PList [PInt 1])]
     = Inl AttributeError
   \<and> update_dict_from_other (PDict [(''s'', PDict [(''ab'', PInt 1)])]) [(''s'', PSet [''xy''])]
     = Inr (PDict [(''s'', PDict [(''ab'', PInt 1), (''x'', PStr ''y'')])])
   \<and> update_dict_from_other (PDict [(''s'', PDict [(''ab'', PInt 1)])]) [(''s'', PSet [''xyz''])]
     = Inl (ValueError ''dictionary update sequence element #0 has length 3; 2 is required'')"
  by (simp add: setdefault_def dict_update_from_strings_def decimal.simps)

section \<open>Renaming the keys of one mapping\<close>

lemma str_replace_absent: "old_char \<notin> set key \<Longrightarrow> str_replace old_char new_char key = key"
  by (induction key) (auto simp: str_replace_def)

lemma str_replace_idem:
  "str_replace old_char new_char (str_replace old_char new_char key) = str_replace old_char new_char key"
  by (induction key) (auto simp: str_replace_def)

lemma str_replace_has_new:
  "old_char \<in> set key \<Longrightarrow> new_char \<in> set (str_replace old_char new_char key)"
  by (induction key) (auto simp: str_replace_def)

lemma str_replace_back:
  "new_char \<notin> set key \<Longrightarrow> str_replace new_char old_char (str_replace old_char new_char key) = key"
  by (induction key) (auto simp: str_replace_def)

lemma str_replace_free:
  "old_char \<noteq> new_char \<Longrightarrow> old_char \<notin> set (str_replace old_char new_char key)"
  by (induction key) (auto simp: str_replace_def)

lemma rename_key_distinct:
  "distinct (map fst cur) \<Longrightarrow> distinct (map fst (rename_key old_char new_char k cur))"
  by (auto simp: rename_key_def distinct_update distinct_delete split: option.splits)

lemma rename_key_set:
  assumes d: "distinct (map fst cur)"
    and k: "k \<in> fst ` set cur"
    and new: "str_replace old_char new_char k \<notin> fst ` set cur \<or> str_replace old_char new_char k = k"
  shows "set (rename_key old_char new_char k cur) =
           (\<lambda>(x, v). (if x = k then str_replace old_char new_char k else x, v)) ` set cur"
proof (cases "old_char \<in> set k")
  case False
  then have same: "str_replace old_char new_char k = k" by (rule str_replace_absent)
  have "(\<lambda>(x, v). (if x = k then str_replace old_char new_char k else x, v)) ` set cur = set cur"
    unfolding same by force
  then show ?thesis using False by (simp add: rename_key_def)
next
  case True
  obtain v where v: "map_of cur k = Some v"
    using k by (metis weak_map_of_SomeI imageE prod.collapse)
  let ?f = "str_replace old_char new_char k"
  let ?res = "AList.update ?f v (AList.delete k cur)"
  have res: "rename_key old_char new_char k cur = ?res"
    using True v by (simp add: rename_key_def)
  have dres: "distinct (map fst ?res)"
    using d by (simp add: distinct_update distinct_delete)
  have m: "map_of ?res = ((map_of cur)(k := None))(?f \<mapsto> v)"
    by (simp add: update_conv' delete_conv')
  have pointwise: "(a, b) \<in> set ?res \<longleftrightarrow>
        (a, b) \<in> (\<lambda>(x, v). (if x = k then ?f else x, v)) ` set cur" for a b
  proof -
    have l: "(a, b) \<in> set ?res \<longleftrightarrow> (((map_of cur)(k := None))(?f \<mapsto> v)) a = Some b"
      using map_of_eq_Some_iff[OF dres, of a b] m by simp
    have r: "(a, b) \<in> (\<lambda>(x, v). (if x = k then ?f else x, v)) ` set cur \<longleftrightarrow>
               (a = ?f \<and> (k, b) \<in> set cur) \<or> (a \<noteq> k \<and> (a, b) \<in> set cur)"
      by (force split: if_splits)
    have kv: "(k, b) \<in> set cur \<longleftrightarrow> b = v"
      using map_of_eq_Some_iff[OF d, of k b] v by auto
    have ab: "(a, b) \<in> set cur \<longleftrightarrow> map_of cur a = Some b" using d by simp
    show ?thesis
    proof (cases "a = ?f")
      case True
      have "a \<noteq> k \<Longrightarrow> (a, b) \<notin> set cur"
        using True new by (metis fst_conv image_eqI)
      then show ?thesis using l r kv True by auto
    next
      case False
      then show ?thesis using l r ab by auto
    qed
  qed
  have eq: "set ?res = (\<lambda>(x, v). (if x = k then ?f else x, v)) ` set cur"
  proof (rule set_eqI)
    fix p
    show "p \<in> set ?res \<longleftrightarrow> p \<in> (\<lambda>(x, v). (if x = k then ?f else x, v)) ` set cur"
      using pointwise[of "fst p" "snd p"] by simp
  qed
  show ?thesis unfolding res by (rule eq)
qed

lemma rename_keys_fold:
  assumes "distinct ks" and "distinct (map fst cur)" and "set ks \<subseteq> fst ` set cur"
    and "inj_on (str_replace old_char new_char) (fst ` set cur)"
  shows "distinct (map fst (fold (rename_key old_char new_char) ks cur))
    \<and> set (fold (rename_key old_char new_char) ks cur) =
        (\<lambda>(x, v). (if x \<in> set ks then str_replace old_char new_char x else x, v)) ` set cur"
  using assms
proof (induction ks arbitrary: cur)
  case Nil
  have "(\<lambda>(x, v). (x, v)) ` set cur = set cur" by force
  then show ?case using Nil by simp
next
  case (Cons k ks)
  let ?f = "str_replace old_char new_char"
  let ?g = "\<lambda>x. if x = k then ?f k else x"
  let ?cur1 = "rename_key old_char new_char k cur"
  have k_in: "k \<in> fst ` set cur" using Cons.prems(3) by simp
  have fixed: "?f k = k" if "?f k \<in> fst ` set cur"
  proof -
    have idem: "?f (?f k) = ?f k" by (rule str_replace_idem)
    show ?thesis by (rule inj_onD[OF Cons.prems(4) idem that k_in])
  qed
  then have new: "?f k \<notin> fst ` set cur \<or> ?f k = k" by blast
  have set1: "set ?cur1 = (\<lambda>(x, v). (?g x, v)) ` set cur"
    using rename_key_set[OF Cons.prems(2) k_in new] .
  have keys1: "fst ` set ?cur1 = ?g ` fst ` set cur"
    unfolding set1 image_image by (rule image_cong[OF refl]) (simp add: case_prod_unfold)
  have d1: "distinct (map fst ?cur1)" using Cons.prems(2) by (rule rename_key_distinct)
  have dks: "distinct ks" and k_notin: "k \<notin> set ks" using Cons.prems(1) by auto
  have sub1: "set ks \<subseteq> fst ` set ?cur1"
  proof
    fix x assume x: "x \<in> set ks"
    then have "x \<in> fst ` set cur" and "x \<noteq> k" using Cons.prems(3) k_notin by auto
    then have "?g x \<in> ?g ` fst ` set cur" and "?g x = x" by auto
    then show "x \<in> fst ` set ?cur1" using keys1 by simp
  qed
  have fg: "?f (?g x) = ?f x" for x by (simp add: str_replace_idem)
  have inj1: "inj_on ?f (fst ` set ?cur1)"
  proof (rule inj_onI)
    fix a b assume a: "a \<in> fst ` set ?cur1" and b: "b \<in> fst ` set ?cur1" and ab: "?f a = ?f b"
    obtain x where x: "x \<in> fst ` set cur" "a = ?g x" using a unfolding keys1 by blast
    obtain y where y: "y \<in> fst ` set cur" "b = ?g y" using b unfolding keys1 by blast
    have "?f x = ?f y" using ab fg[of x] fg[of y] unfolding x(2) y(2) by simp
    then have "x = y" using inj_onD[OF Cons.prems(4) _ x(1) y(1)] by simp
    then show "a = b" using x(2) y(2) by simp
  qed
  note ih = Cons.IH[OF dks d1 sub1 inj1]
  have fk_notin: "?f k \<notin> set ks"
  proof
    assume h: "?f k \<in> set ks"
    then have "?f k \<in> fst ` set cur" using Cons.prems(3) by auto
    then have "?f k = k" by (rule fixed)
    then show False using h k_notin by simp
  qed
  have comp: "(\<lambda>(x, v). (if x \<in> set ks then ?f x else x, v)) ((\<lambda>(x, v). (?g x, v)) p) =
              (\<lambda>(x, v). (if x \<in> set (k # ks) then ?f x else x, v)) p" for p
    using fk_notin by (cases p) auto
  have "set (fold (rename_key old_char new_char) ks ?cur1) =
        (\<lambda>(x, v). (if x \<in> set ks then ?f x else x, v)) ` (\<lambda>(x, v). (?g x, v)) ` set cur"
    using ih set1 by simp
  also have "\<dots> = (\<lambda>(x, v). (if x \<in> set (k # ks) then ?f x else x, v)) ` set cur"
    unfolding image_image by (rule image_cong[OF refl]) (rule comp)
  finally show ?case using ih by simp
qed

lemma rename_all_set:
  assumes "distinct (map fst xs)" and "inj_on (str_replace old_char new_char) (fst ` set xs)"
  shows "distinct (map fst (fold (rename_key old_char new_char) (map fst xs) xs))"
    and "set (fold (rename_key old_char new_char) (map fst xs) xs) =
        (\<lambda>(x, v). (str_replace old_char new_char x, v)) ` set xs"
proof -
  have sub: "set (map fst xs) \<subseteq> fst ` set xs" by simp
  note r = rename_keys_fold[OF assms(1) assms(1) sub assms(2)]
  show "distinct (map fst (fold (rename_key old_char new_char) (map fst xs) xs))"
    using r by simp
  have "(\<lambda>(x, v). (if x \<in> set (map fst xs) then str_replace old_char new_char x else x, v)) ` set xs
        = (\<lambda>(x, v). (str_replace old_char new_char x, v)) ` set xs"
    by (rule image_cong[OF refl]) force
  then show "set (fold (rename_key old_char new_char) (map fst xs) xs) =
        (\<lambda>(x, v). (str_replace old_char new_char x, v)) ` set xs"
    using r by simp
qed

section \<open>The key rewrite and its round trip\<close>

lemma str_replace_inj_on:
  "\<forall>k \<in> S. new_char \<notin> set k \<Longrightarrow> inj_on (str_replace old_char new_char) S"
  by (rule inj_on_inverseI[where g = "str_replace new_char old_char"])
     (simp add: str_replace_back)

lemma replace_in_keys_dict_set:
  assumes "distinct (map fst d)" and "\<forall>k \<in> fst ` set d. new_char \<notin> set k"
  shows "distinct (map fst (dict_items (replace_in_keys (PDict d) old_char new_char)))"
    and "set (dict_items (replace_in_keys (PDict d) old_char new_char)) =
           (\<lambda>(k, v). (str_replace old_char new_char k, replace_in_keys v old_char new_char)) ` set d"
proof -
  let ?xs = "map (\<lambda>(key, v). (key, replace_in_keys v old_char new_char)) d"
  have keys: "map fst ?xs = map fst d" by (induction d) auto
  have dx: "distinct (map fst ?xs)" using assms(1) by (simp only: keys)
  have "set (map fst ?xs) = set (map fst d)" by (simp only: keys)
  then have "fst ` set ?xs = fst ` set d" by (simp only: set_map)
  then have inj: "inj_on (str_replace old_char new_char) (fst ` set ?xs)"
    using str_replace_inj_on[of "fst ` set d" new_char old_char] assms(2) by simp
  have items: "dict_items (replace_in_keys (PDict d) old_char new_char) =
                 fold (rename_key old_char new_char) (map fst ?xs) ?xs"
    by (simp only: keys replace_in_keys.simps dict_items.simps)
  show "distinct (map fst (dict_items (replace_in_keys (PDict d) old_char new_char)))"
    unfolding items by (rule rename_all_set(1)[OF dx inj])
  have "set (fold (rename_key old_char new_char) (map fst ?xs) ?xs) =
          (\<lambda>(x, v). (str_replace old_char new_char x, v)) ` set ?xs"
    by (rule rename_all_set(2)[OF dx inj])
  also have "\<dots> = (\<lambda>(k, v). (str_replace old_char new_char k, replace_in_keys v old_char new_char)) ` set d"
    by (simp add: image_image case_prod_unfold)
  finally show "set (dict_items (replace_in_keys (PDict d) old_char new_char)) =
           (\<lambda>(k, v). (str_replace old_char new_char k, replace_in_keys v old_char new_char)) ` set d"
    unfolding items .
qed

lemma replace_in_keys_is_dict:
  "replace_in_keys (PDict d) old_char new_char =
     PDict (dict_items (replace_in_keys (PDict d) old_char new_char))"
  by simp

lemma py_eq_round_trip:
  "distinct_keys v \<Longrightarrow> char_free_keys (CHR ''-'') v \<Longrightarrow>
   py_eq (replace_in_keys (replace_in_keys v (CHR ''_'') (CHR ''-'')) (CHR ''-'') (CHR ''_'')) v"
proof (induction v)
  case (PList xs)
  have "\<forall>x \<in> set xs.
          py_eq (replace_in_keys (replace_in_keys x (CHR ''_'') (CHR ''-'')) (CHR ''-'') (CHR ''_'')) x"
    using PList by auto
  then show ?case by (simp add: list_all2_map1 list_all2_same)
next
  case (PDict d)
  let ?R = "\<lambda>x. replace_in_keys x (CHR ''_'') (CHR ''-'')"
  let ?B = "\<lambda>x. replace_in_keys x (CHR ''-'') (CHR ''_'')"
  let ?f1 = "str_replace (CHR ''_'') (CHR ''-'')"
  let ?f2 = "str_replace (CHR ''-'') (CHR ''_'')"
  let ?d1 = "dict_items (?R (PDict d))"
  let ?d2 = "dict_items (?B (PDict ?d1))"
  have dd: "distinct (map fst d)" using PDict.prems(1) by simp
  have free: "\<forall>k \<in> fst ` set d. CHR ''-'' \<notin> set k" using PDict.prems(2) by auto
  have d1: "distinct (map fst ?d1)"
    and s1: "set ?d1 = (\<lambda>(k, v). (?f1 k, ?R v)) ` set d"
    using replace_in_keys_dict_set[OF dd free] by auto
  have free1: "\<forall>k \<in> fst ` set ?d1. CHR ''_'' \<notin> set k"
    unfolding s1 by (auto simp: str_replace_free)
  have d2: "distinct (map fst ?d2)"
    and s2: "set ?d2 = (\<lambda>(k, v). (?f2 k, ?B v)) ` set ?d1"
    using replace_in_keys_dict_set[OF d1 free1] by auto
  have s2': "set ?d2 = (\<lambda>(k, v). (k, ?B (?R v))) ` set d"
  proof -
    have "set ?d2 = (\<lambda>(k, v). (?f2 (?f1 k), ?B (?R v))) ` set d"
      unfolding s2 s1 by (simp add: image_image case_prod_unfold)
    also have "\<dots> = (\<lambda>(k, v). (k, ?B (?R v))) ` set d"
    proof (rule image_cong[OF refl])
      fix p assume p: "p \<in> set d"
      then have "CHR ''-'' \<notin> set (fst p)" using free by auto
      then have "?f2 (?f1 (fst p)) = fst p" by (rule str_replace_back)
      then show "(case p of (k, v) \<Rightarrow> (?f2 (?f1 k), ?B (?R v))) = (case p of (k, v) \<Rightarrow> (k, ?B (?R v)))"
        by (simp add: case_prod_unfold)
    qed
    finally show ?thesis .
  qed
  have whole: "?B (?R (PDict d)) = PDict ?d2"
    using replace_in_keys_is_dict[of d "CHR ''_''" "CHR ''-''"]
      replace_in_keys_is_dict[of ?d1 "CHR ''-''" "CHR ''_''"] by simp
  have keys: "set (map fst ?d2) = set (map fst d)"
    unfolding set_map s2' by (force simp: image_image)
  have len: "length ?d2 = length d"
  proof -
    have "length (map fst ?d2) = card (set (map fst ?d2))" using d2 by (simp only: distinct_card)
    also have "\<dots> = card (set (map fst d))" by (simp only: keys)
    also have "\<dots> = length (map fst d)" using dd by (simp only: distinct_card)
    finally show ?thesis by simp
  qed
  have vals: "\<forall>(k, v') \<in> set ?d2. case map_of d k of None \<Rightarrow> False | Some w \<Rightarrow> py_eq v' w"
  proof (clarify)
    fix k v' assume "(k, v') \<in> set ?d2"
    then obtain v where v: "(k, v) \<in> set d" and v': "v' = ?B (?R v)"
      unfolding s2' by auto
    have m: "map_of d k = Some v" using dd v by simp
    have "distinct_keys v" and "char_free_keys (CHR ''-'') v"
      using PDict.prems v by auto
    then have "py_eq (?B (?R v)) v"
      using PDict.IH[of "(k, v)" v] v by simp
    then show "case map_of d k of None \<Rightarrow> False | Some w \<Rightarrow> py_eq v' w"
      using m v' by simp
  qed
  show ?case unfolding whole using len vals by simp
qed simp_all

lemma rename_key_other:
  "old_char \<notin> set key \<Longrightarrow> new_char \<notin> set key \<Longrightarrow>
   map_of (rename_key old_char new_char k cur) key = map_of cur key"
proof (cases "old_char \<in> set k")
  case False
  then show ?thesis by (simp add: rename_key_def)
next
  case True
  assume a: "old_char \<notin> set key" "new_char \<notin> set key"
  have "key \<noteq> k" using True a(1) by auto
  moreover have "key \<noteq> str_replace old_char new_char k"
    using str_replace_has_new[OF True, of new_char] a(2) by auto
  ultimately show ?thesis
    by (simp add: rename_key_def update_conv' delete_conv' split: option.splits)
qed

lemma rename_keys_other:
  "old_char \<notin> set key \<Longrightarrow> new_char \<notin> set key \<Longrightarrow>
   map_of (fold (rename_key old_char new_char) ks cur) key = map_of cur key"
  by (induction ks arbitrary: cur) (simp_all add: rename_key_other)

lemma replace_in_keys_other:
  "old_char \<notin> set key \<Longrightarrow> new_char \<notin> set key \<Longrightarrow>
   map_of (dict_items (replace_in_keys (PDict d) old_char new_char)) key =
     map_option (\<lambda>v. replace_in_keys v old_char new_char) (map_of d key)"
  by (simp add: rename_keys_other map_of_map)


lemma round_trip_keys:
  assumes "distinct_keys v" and "char_free_keys (CHR ''-'') v"
  shows "set (map fst (dict_items
            (replace_in_keys (replace_in_keys v (CHR ''_'') (CHR ''-'')) (CHR ''-'') (CHR ''_''))))
         = set (map fst (dict_items v))"
proof (cases v)
  case (PDict d)
  let ?R = "\<lambda>x. replace_in_keys x (CHR ''_'') (CHR ''-'')"
  let ?B = "\<lambda>x. replace_in_keys x (CHR ''-'') (CHR ''_'')"
  let ?d1 = "dict_items (?R (PDict d))"
  let ?d2 = "dict_items (?B (PDict ?d1))"
  have dd: "distinct (map fst d)" using assms(1) PDict by simp
  have free: "\<forall>k \<in> fst ` set d. CHR ''-'' \<notin> set k" using assms(2) PDict by auto
  have d1: "distinct (map fst ?d1)"
    and s1: "set ?d1 = (\<lambda>(k, v). (str_replace (CHR ''_'') (CHR ''-'') k, ?R v)) ` set d"
    using replace_in_keys_dict_set[OF dd free] by auto
  have free1: "\<forall>k \<in> fst ` set ?d1. CHR ''_'' \<notin> set k"
    unfolding s1 by (auto simp: str_replace_free)
  have s2: "set ?d2 = (\<lambda>(k, v). (str_replace (CHR ''-'') (CHR ''_'') k, ?B v)) ` set ?d1"
    using replace_in_keys_dict_set[OF d1 free1] by auto
  have "fst ` set ?d2 =
          (\<lambda>p. str_replace (CHR ''-'') (CHR ''_'') (str_replace (CHR ''_'') (CHR ''-'') (fst p))) ` set d"
    unfolding s2 s1 by (simp add: image_image case_prod_unfold)
  also have "\<dots> = fst ` set d"
  proof (rule image_cong[OF refl])
    fix p assume "p \<in> set d"
    then have "CHR ''-'' \<notin> set (fst p)" using free by auto
    then show "str_replace (CHR ''-'') (CHR ''_'') (str_replace (CHR ''_'') (CHR ''-'') (fst p)) = fst p"
      by (rule str_replace_back)
  qed
  finally have "fst ` set ?d2 = fst ` set d" .
  moreover have "?B (?R (PDict d)) = PDict ?d2"
    using replace_in_keys_is_dict[of d "CHR ''_''" "CHR ''-''"]
      replace_in_keys_is_dict[of ?d1 "CHR ''-''" "CHR ''_''"] by simp
  ultimately show ?thesis using PDict by (simp only: set_map dict_items.simps)
qed simp_all

lemma round_trip_dict:
  assumes "distinct (map fst d)" and "\<forall>k \<in> fst ` set d. CHR ''-'' \<notin> set k"
  shows "\<exists>d2. replace_in_keys (replace_in_keys (PDict d) (CHR ''_'') (CHR ''-'')) (CHR ''-'') (CHR ''_'')
                = PDict d2
            \<and> distinct (map fst d2)
            \<and> set d2 = (\<lambda>(k, v). (k, replace_in_keys (replace_in_keys v (CHR ''_'') (CHR ''-''))
                                       (CHR ''-'') (CHR ''_''))) ` set d"
proof -
  let ?R = "\<lambda>x. replace_in_keys x (CHR ''_'') (CHR ''-'')"
  let ?B = "\<lambda>x. replace_in_keys x (CHR ''-'') (CHR ''_'')"
  let ?f1 = "str_replace (CHR ''_'') (CHR ''-'')"
  let ?f2 = "str_replace (CHR ''-'') (CHR ''_'')"
  let ?d1 = "dict_items (?R (PDict d))"
  let ?d2 = "dict_items (?B (PDict ?d1))"
  have d1: "distinct (map fst ?d1)"
    and s1: "set ?d1 = (\<lambda>(k, v). (?f1 k, ?R v)) ` set d"
    using replace_in_keys_dict_set[OF assms] by auto
  have free1: "\<forall>k \<in> fst ` set ?d1. CHR ''_'' \<notin> set k"
    unfolding s1 by (auto simp: str_replace_free)
  have d2: "distinct (map fst ?d2)"
    and s2: "set ?d2 = (\<lambda>(k, v). (?f2 k, ?B v)) ` set ?d1"
    using replace_in_keys_dict_set[OF d1 free1] by auto
  have s2': "set ?d2 = (\<lambda>(k, v). (k, ?B (?R v))) ` set d"
  proof -
    have "set ?d2 = (\<lambda>(k, v). (?f2 (?f1 k), ?B (?R v))) ` set d"
      unfolding s2 s1 by (simp add: image_image case_prod_unfold)
    also have "\<dots> = (\<lambda>(k, v). (k, ?B (?R v))) ` set d"
    proof (rule image_cong[OF refl])
      fix p assume p: "p \<in> set d"
      then have "CHR ''-'' \<notin> set (fst p)" using assms(2) by auto
      then have "?f2 (?f1 (fst p)) = fst p" by (rule str_replace_back)
      then show "(case p of (k, v) \<Rightarrow> (?f2 (?f1 k), ?B (?R v))) = (case p of (k, v) \<Rightarrow> (k, ?B (?R v)))"
        by (simp add: case_prod_unfold)
    qed
    finally show ?thesis .
  qed
  have whole: "?B (?R (PDict d)) = PDict ?d2"
    using replace_in_keys_is_dict[of d "CHR ''_''" "CHR ''-''"]
      replace_in_keys_is_dict[of ?d1 "CHR ''-''" "CHR ''_''"] by simp
  show ?thesis using whole d2 s2' by blast
qed

lemma distinct_keys_round_trip:
  "distinct_keys v \<Longrightarrow> char_free_keys (CHR ''-'') v \<Longrightarrow>
   distinct_keys (replace_in_keys (replace_in_keys v (CHR ''_'') (CHR ''-'')) (CHR ''-'') (CHR ''_''))"
proof (induction v)
  case (PList xs)
  then show ?case by auto
next
  case (PDict d)
  let ?rt = "\<lambda>x. replace_in_keys (replace_in_keys x (CHR ''_'') (CHR ''-'')) (CHR ''-'') (CHR ''_'')"
  have dd: "distinct (map fst d)" using PDict.prems(1) by simp
  have free: "\<forall>k \<in> fst ` set d. CHR ''-'' \<notin> set k" using PDict.prems(2) by auto
  obtain d2 where whole: "?rt (PDict d) = PDict d2" and d2: "distinct (map fst d2)"
    and s2: "set d2 = (\<lambda>(k, v). (k, ?rt v)) ` set d"
    using round_trip_dict[OF dd free] by blast
  have "\<forall>(k, v') \<in> set d2. distinct_keys v'"
  proof (clarify)
    fix k v' assume "(k, v') \<in> set d2"
    then obtain v where v: "(k, v) \<in> set d" and v': "v' = ?rt v"
      unfolding s2 by auto
    have "distinct_keys v" and "char_free_keys (CHR ''-'') v"
      using PDict.prems v by auto
    then show "distinct_keys v'"
      using PDict.IH[of "(k, v)" v] v v' by simp
  qed
  then show ?case unfolding whole using d2 by simp
qed simp_all

lemma keys_at_depth_round_trip:
  "distinct_keys v \<Longrightarrow> char_free_keys (CHR ''-'') v \<Longrightarrow>
   keys_at_depth n (replace_in_keys (replace_in_keys v (CHR ''_'') (CHR ''-'')) (CHR ''-'') (CHR ''_''))
     = keys_at_depth n v"
proof (induction v arbitrary: n)
  case (PList xs)
  then show ?case by auto
next
  case (PDict d)
  let ?rt = "\<lambda>x. replace_in_keys (replace_in_keys x (CHR ''_'') (CHR ''-'')) (CHR ''-'') (CHR ''_'')"
  have dd: "distinct (map fst d)" using PDict.prems(1) by simp
  have free: "\<forall>k \<in> fst ` set d. CHR ''-'' \<notin> set k" using PDict.prems(2) by auto
  obtain d2 where whole: "?rt (PDict d) = PDict d2"
    and s2: "set d2 = (\<lambda>(k, v). (k, ?rt v)) ` set d"
    using round_trip_dict[OF dd free] by blast
  have inner: "keys_at_depth m (?rt v) = keys_at_depth m v" if "(k, v) \<in> set d" for k v m
  proof -
    have "distinct_keys v" and "char_free_keys (CHR ''-'') v"
      using PDict.prems that by auto
    then show ?thesis using PDict.IH[of "(k, v)" v m] that by simp
  qed
  show ?case
  proof (cases n)
    case 0
    have "fst ` set d2 = fst ` set d" unfolding s2 by force
    then show ?thesis unfolding whole using 0 by simp
  next
    case (Suc m)
    have "(\<Union>(k, v') \<in> set d2. keys_at_depth m v') = (\<Union>(k, v) \<in> set d. keys_at_depth m (?rt v))"
      unfolding s2 by (simp add: case_prod_unfold)
    also have "\<dots> = (\<Union>(k, v) \<in> set d. keys_at_depth m v)"
      using inner by auto
    finally show ?thesis unfolding whole using Suc by simp
  qed
qed simp_all

lemma update_entries:
  "(a, b) \<in> set (AList.update k v al) \<Longrightarrow> (a, b) = (k, v) \<or> (a, b) \<in> set al"
  by (induction al) (auto split: if_splits)

lemma delete_entries:
  "(a, b) \<in> set (AList.delete k al) \<Longrightarrow> (a, b) \<in> set al \<and> a \<noteq> k"
  by (induction al) (auto split: if_splits)

lemma rename_key_entries:
  assumes "old_char \<noteq> new_char" and "(k, v) \<in> set (rename_key old_char new_char key cur)"
  shows "v \<in> snd ` set cur"
    and "old_char \<in> set k \<Longrightarrow> k \<in> fst ` set cur \<and> k \<noteq> key"
proof -
  show "v \<in> snd ` set cur"
  proof (cases "old_char \<in> set key")
    case False
    then show ?thesis using assms(2) by (force simp: rename_key_def)
  next
    case True
    show ?thesis
    proof (cases "map_of cur key")
      case None
      then show ?thesis using assms(2) True by (force simp: rename_key_def)
    next
      case (Some w)
      then have w: "(key, w) \<in> set cur" by (rule map_of_SomeD)
      have "(k, v) \<in> set (AList.update (str_replace old_char new_char key) w (AList.delete key cur))"
        using assms(2) True Some by (simp add: rename_key_def)
      then have "(k, v) = (str_replace old_char new_char key, w) \<or> (k, v) \<in> set (AList.delete key cur)"
        by (rule update_entries)
      then show ?thesis using w delete_entries[of k v key cur] by force
    qed
  qed
  show "k \<in> fst ` set cur \<and> k \<noteq> key" if old: "old_char \<in> set k"
  proof (cases "old_char \<in> set key")
    case False
    then show ?thesis using assms(2) old by (force simp: rename_key_def)
  next
    case True
    show ?thesis
    proof (cases "map_of cur key")
      case None
      then have "key \<notin> fst ` set cur" by (simp add: map_of_eq_None_iff)
      moreover have "(k, v) \<in> set cur" using assms(2) True None by (simp add: rename_key_def)
      ultimately show ?thesis by force
    next
      case (Some w)
      have "(k, v) \<in> set (AList.update (str_replace old_char new_char key) w (AList.delete key cur))"
        using assms(2) True Some by (simp add: rename_key_def)
      then have "(k, v) = (str_replace old_char new_char key, w) \<or> (k, v) \<in> set (AList.delete key cur)"
        by (rule update_entries)
      moreover have "k \<noteq> str_replace old_char new_char key"
        using old assms(1) by (auto simp: str_replace_def)
      ultimately have "(k, v) \<in> set (AList.delete key cur)" by simp
      then show ?thesis using delete_entries[of k v key cur] by force
    qed
  qed
qed

lemma rename_keys_entries:
  assumes "old_char \<noteq> new_char"
  shows "(k, v) \<in> set (fold (rename_key old_char new_char) ks cur) \<Longrightarrow>
         v \<in> snd ` set cur \<and> (old_char \<in> set k \<longrightarrow> k \<in> fst ` set cur \<and> k \<notin> set ks)"
proof (induction ks arbitrary: cur)
  case Nil
  then show ?case by force
next
  case (Cons key ks)
  have step: "(k, v) \<in> set (fold (rename_key old_char new_char) ks (rename_key old_char new_char key cur))"
    using Cons.prems by simp
  note ih = Cons.IH[OF step]
  from ih obtain k' where k': "(k', v) \<in> set (rename_key old_char new_char key cur)" by force
  have v: "v \<in> snd ` set cur" using rename_key_entries(1)[OF assms k'] .
  have "k \<in> fst ` set cur \<and> k \<notin> set (key # ks)" if old: "old_char \<in> set k"
  proof -
    have "k \<in> fst ` set (rename_key old_char new_char key cur)" and nks: "k \<notin> set ks"
      using ih old by auto
    then obtain w where "(k, w) \<in> set (rename_key old_char new_char key cur)" by force
    then have "k \<in> fst ` set cur \<and> k \<noteq> key" using rename_key_entries(2)[OF assms _ old] by blast
    then show ?thesis using nks by simp
  qed
  then show ?case using v by blast
qed

lemma replace_in_keys_char_free:
  "old_char \<noteq> new_char \<Longrightarrow> char_free_keys old_char (replace_in_keys x old_char new_char)"
proof (induction x)
  case (PList xs)
  then show ?case by auto
next
  case (PDict d)
  let ?xs = "map (\<lambda>(key, v). (key, replace_in_keys v old_char new_char)) d"
  have keys: "map fst ?xs = map fst d" by (induction d) auto
  have "old_char \<notin> set k \<and> char_free_keys old_char v"
    if mem: "(k, v) \<in> set (fold (rename_key old_char new_char) (map fst d) ?xs)" for k v
  proof -
    note e = rename_keys_entries[OF PDict.prems mem]
    have "old_char \<notin> set k"
    proof
      assume "old_char \<in> set k"
      then have "k \<in> fst ` set ?xs" and "k \<notin> set (map fst d)" using e by auto
      then show False using keys by (metis set_map)
    qed
    moreover have "char_free_keys old_char v"
    proof -
      from e have "v \<in> snd ` set ?xs" by simp
      then obtain k0 v0 where m0: "(k0, v0) \<in> set d" and v: "v = replace_in_keys v0 old_char new_char"
        by auto
      show ?thesis using PDict.IH[of "(k0, v0)" v0] m0 PDict.prems v by simp
    qed
    ultimately show ?thesis by simp
  qed
  then show ?case by auto
qed simp_all


text \<open>
  Claim C8, as amended. For every nested structure of mappings and lists (each mapping
  holding each key once) in which no key contains a hyphen, rewriting underscores to
  hyphens and then hyphens to underscores gives back a value equal to the original one,
  again with each key once in every mapping; the set of keys found at each nesting depth,
  the mappings inside list values included, is the original one. For every mapping, a key
  that contains neither character is kept by either rewrite, bound to the rewritten value.
  Whatever the structure, no key contains a hyphen after the rewrite of hyphens to
  underscores: a key that had one does not come back.
\<close>

theorem replace_in_keys_round_trip:
  assumes "distinct_keys v" and "char_free_keys (CHR ''-'') v"
  shows "py_eq (replace_in_keys (replace_in_keys v (CHR ''_'') (CHR ''-'')) (CHR ''-'') (CHR ''_'')) v
    \<and> distinct_keys (replace_in_keys (replace_in_keys v (CHR ''_'') (CHR ''-'')) (CHR ''-'') (CHR ''_''))
    \<and> (\<forall>n. keys_at_depth n (replace_in_keys (replace_in_keys v (CHR ''_'') (CHR ''-'')) (CHR ''-'') (CHR ''_''))
            = keys_at_depth n v)
    \<and> set (map fst (dict_items
            (replace_in_keys (replace_in_keys v (CHR ''_'') (CHR ''-'')) (CHR ''-'') (CHR ''_''))))
         = set (map fst (dict_items v))
    \<and> (\<forall>d key. CHR ''_'' \<notin> set key \<longrightarrow> CHR ''-'' \<notin> set key \<longrightarrow>
          map_of (dict_items (replace_in_keys (PDict d) (CHR ''_'') (CHR ''-''))) key =
            map_option (\<lambda>x. replace_in_keys x (CHR ''_'') (CHR ''-'')) (map_of d key)
        \<and> map_of (dict_items (replace_in_keys (PDict d) (CHR ''-'') (CHR ''_''))) key =
            map_option (\<lambda>x. replace_in_keys x (CHR ''-'') (CHR ''_'')) (map_of d key))
    \<and> (\<forall>x. char_free_keys (CHR ''-'') (replace_in_keys x (CHR ''-'') (CHR ''_'')))"
proof -
  have free: "\<forall>x. char_free_keys (CHR ''-'') (replace_in_keys x (CHR ''-'') (CHR ''_''))"
    by (simp add: replace_in_keys_char_free)
  have depth: "\<forall>n. keys_at_depth n (replace_in_keys (replace_in_keys v (CHR ''_'') (CHR ''-'')) (CHR ''-'') (CHR ''_''))
            = keys_at_depth n v"
    using keys_at_depth_round_trip[OF assms] by blast
  show ?thesis
    using py_eq_round_trip[OF assms] distinct_keys_round_trip[OF assms] depth
      round_trip_keys[OF assms]
      replace_in_keys_other[of "CHR ''_''" _ "CHR ''-''"]
      replace_in_keys_other[of "CHR ''-''" _ "CHR ''_''"] free
    by blast
qed

theorem replace_in_keys_round_trip_witness:
  "distinct_keys (PDict [(''ignored_paths'', PList [PDict [(''a_b'', PInt 1), (''c'', PNone)]]),
                (''verbose'', PBool True)])
   \<and> char_free_keys (CHR ''-'')
        (PDict [(''ignored_paths'', PList [PDict [(''a_b'', PInt 1), (''c'', PNone)]]),
                (''verbose'', PBool True)])
   \<and> replace_in_keys
        (PDict [(''ignored_paths'', PList [PDict [(''a_b'', PInt 1), (''c'', PNone)]]),
                (''verbose'', PBool True)]) (CHR ''_'') (CHR ''-'')
      = PDict [(''verbose'', PBool True),
               (''ignored-paths'', PList [PDict [(''c'', PNone), (''a-b'', PInt 1)]])]
   \<and> replace_in_keys
        (PDict [(''verbose'', PBool True),
                (''ignored-paths'', PList [PDict [(''c'', PNone), (''a-b'', PInt 1)]])])
        (CHR ''-'') (CHR ''_'')
      = PDict [(''verbose'', PBool True),
               (''ignored_paths'', PList [PDict [(''c'', PNone), (''a_b'', PInt 1)]])]
   \<and> py_eq (PDict [(''verbose'', PBool True),
                    (''ignored_paths'', PList [PDict [(''c'', PNone), (''a_b'', PInt 1)]])])
            (PDict [(''ignored_paths'', PList [PDict [(''a_b'', PInt 1), (''c'', PNone)]]),
                (''verbose'', PBool True)])
   \<and> keys_at_depth 0 (PDict [(''verbose'', PBool True),
                    (''ignored_paths'', PList [PDict [(''c'', PNone), (''a_b'', PInt 1)]])])
       = {''ignored_paths'', ''verbose''}
   \<and> keys_at_depth 1 (PDict [(''verbose'', PBool True),
                    (''ignored_paths'', PList [PDict [(''c'', PNone), (''a_b'', PInt 1)]])])
       = {''a_b'', ''c''}"
  using replace_in_keys_round_trip
    [of "PDict [(''ignored_paths'', PList [PDict [(''a_b'', PInt 1), (''c'', PNone)]]),
                (''verbose'', PBool True)]"]
  by (auto simp: rename_key_def str_replace_def)

text \<open>
  A key that contains a hyphen does not come back: the round trip turns \<open>a-b\<close> into
  \<open>a_b\<close>, and the key set is no longer the original one.
\<close>

theorem replace_in_keys_round_trip_counterexample:
  "replace_in_keys (replace_in_keys (PDict [(''a-b'', PInt 1)]) (CHR ''_'') (CHR ''-''))
     (CHR ''-'') (CHR ''_'') = PDict [(''a_b'', PInt 1)]
   \<and> set (map fst (dict_items (PDict [(''a_b'', PInt 1)])))
       \<noteq> set (map fst (dict_items (PDict [(''a-b'', PInt 1)])))
   \<and> keys_at_depth 0 (PDict [(''a_b'', PInt 1)]) \<noteq> keys_at_depth 0 (PDict [(''a-b'', PInt 1)])
   \<and> \<not> py_eq (PDict [(''a_b'', PInt 1)]) (PDict [(''a-b'', PInt 1)])"
  by (simp add: rename_key_def str_replace_def)

section \<open>The version of a configuration file\<close>

lemma version_after_replace:
  "map_of (dict_items (replace_in_keys (PDict d) (CHR ''_'') (CHR ''-''))) ''version'' =
     map_option (\<lambda>v. replace_in_keys v (CHR ''_'') (CHR ''-'')) (map_of d ''version'')"
  by (rule replace_in_keys_other) simp_all

text \<open>
  What \<open>_load_config_dict\<close> does with an existing file that holds a non-empty mapping:
  the keys are rewritten, the version is popped (1 if there is none), and the version
  decides.
\<close>

lemma load_config_dict_mapping:
  assumes "d \<noteq> []"
  shows "load_config_dict im conv config_path (Some (YamlLoaded (PDict d))) msgs =
     (let dct1 = dict_items (replace_in_keys (PDict d) (CHR ''_'') (CHR ''-''));
          config_version = (case map_of dct1 ''version'' of None \<Rightarrow> PInt 1 | Some v \<Rightarrow> v);
          dct = AList.delete ''version'' dct1
      in if py_eq config_version (PInt 2) then
           (case fix_ignore_known_secrets dct of
              Inl e \<Rightarrow> Inl e
            | Inr fixed \<Rightarrow> Inr (fixed, msgs, []))
         else if py_eq config_version (PInt 1) then
           load_v1_dict im conv dct (msgs @ [deprecated_format_message config_path])
         else Inl (UnexpectedError unknown_version_text config_version))"
proof -
  have y: "load_yaml_dict config_path (Some (YamlLoaded (PDict d))) = Inr (Some d)"
    using assms by (simp add: load_yaml_dict_def)
  obtain d1 where d1: "replace_in_keys (PDict d) (CHR ''_'') (CHR ''-'') = PDict d1"
    by simp
  have items: "dict_items (replace_in_keys (PDict d) (CHR ''_'') (CHR ''-'')) = d1"
    by (simp only: d1 dict_items.simps)
  have t: "truthy (PDict d)" using assms by simp
  show ?thesis
    unfolding load_config_dict_def Let_def y
    by (simp only: t sum.case option.case if_True items d1 pyval.case) simp
qed

text \<open>
  Claim C5, as amended. Loading an existing configuration file whose \<open>version\<close> key is an
  integer other than 1 and 2 fails: no configuration mapping is produced, and the error
  raised is the \<open>UnexpectedError\<close> whose message carries the unrecognized version; it is not
  a \<open>ParseError\<close>.
\<close>

theorem load_config_dict_unknown_version:
  assumes "map_of d ''version'' = Some (PInt n)" and "n \<noteq> 1" and "n \<noteq> 2"
  shows "load_config_dict im conv config_path (Some (YamlLoaded (PDict d))) msgs =
           Inl (UnexpectedError unknown_version_text (PInt n))
    \<and> (\<forall>msg. load_config_dict im conv config_path (Some (YamlLoaded (PDict d))) msgs
              \<noteq> Inl (ParseError msg))
    \<and> (\<forall>result. load_config_dict im conv config_path (Some (YamlLoaded (PDict d))) msgs
              \<noteq> Inr result)"
proof -
  have ne: "d \<noteq> []" using assms(1) by auto
  have v: "map_of (dict_items (replace_in_keys (PDict d) (CHR ''_'') (CHR ''-''))) ''version''
             = Some (PInt n)"
    using version_after_replace[of d] assms(1) by simp
  have "load_config_dict im conv config_path (Some (YamlLoaded (PDict d))) msgs =
           Inl (UnexpectedError unknown_version_text (PInt n))"
    unfolding load_config_dict_mapping[OF ne] Let_def v using assms(2,3) by simp
  then show ?thesis by simp
qed

theorem load_config_dict_unknown_version_witness:
  "map_of [(''verbose'', PBool True), (''version'', PInt 3)] ''version'' = Some (PInt 3)
   \<and> (3::int) \<noteq> 1 \<and> (3::int) \<noteq> 2
   \<and> load_config_dict (\<lambda>secret. Inl ValidationError) (\<lambda>url warn. Inl TypeError)
        ''.gitguardian.yaml''
        (Some (YamlLoaded (PDict [(''verbose'', PBool True), (''version'', PInt 3)]))) []
      = Inl (UnexpectedError unknown_version_text (PInt 3))"
  using load_config_dict_unknown_version
    [of "[(''verbose'', PBool True), (''version'', PInt 3)]" 3
        "\<lambda>secret. Inl ValidationError" "\<lambda>url warn. Inl TypeError" "''.gitguardian.yaml''" "[]"]
  by simp

text \<open>
  The claim as stated names a parse error. For \<open>version: 3\<close> the error raised is an
  \<open>UnexpectedError\<close>; a \<open>ParseError\<close> is what the same function raises for a file that is
  not valid YAML.
\<close>

theorem load_config_dict_unknown_version_counterexample:
  "load_config_dict (\<lambda>secret. Inl ValidationError) (\<lambda>url warn. Inl TypeError)
     ''.gitguardian.yaml'' (Some (YamlLoaded (PDict [(''version'', PInt 3)]))) []
     = Inl (UnexpectedError unknown_version_text (PInt 3))
   \<and> \<not> (\<exists>msg. load_config_dict (\<lambda>secret. Inl ValidationError) (\<lambda>url warn. Inl TypeError)
          ''.gitguardian.yaml'' (Some (YamlLoaded (PDict [(''version'', PInt 3)]))) []
          = Inl (ParseError msg))
   \<and> load_config_dict (\<lambda>secret. Inl ValidationError) (\<lambda>url warn. Inl TypeError)
     ''.gitguardian.yaml'' (Some (YamlSyntaxError ''mapping values are not allowed here'')) []
     = Inl (ParseError (''.gitguardian.yaml is not a valid YAML file:\<newline>'' @
                        ''mapping values are not allowed here''))"
  by (simp add: load_config_dict_def load_yaml_dict_def rename_key_def CURRENT_CONFIG_VERSION_def)

text \<open>
  Claim C4 fails on the empty mapping. \<open>load_yaml_dict(config_path) or {...}\<close> replaces an
  empty mapping, which is falsy, by the mapping of a version 2 file, as it does for a file
  that does not exist: an existing file with no keys (or with no content at all) is
  loaded as version 2, the v1 transform is not applied and no deprecation message is added.
\<close>

theorem load_config_dict_empty_mapping:
  "load_config_dict im conv config_path (Some (YamlLoaded (PDict []))) msgs = Inr ([], msgs, [])
   \<and> load_config_dict im conv config_path (Some (YamlLoaded PNone)) msgs = Inr ([], msgs, [])
   \<and> load_config_dict im conv config_path None msgs = Inr ([], msgs, [])"
  by (simp add: load_config_dict_def load_yaml_dict_def rename_key_def CURRENT_CONFIG_VERSION_def
        fix_ignore_known_secrets_def IGNORE_KNOWN_SECRETS_KEY_def)

text \<open>
  Every other mapping without a \<open>version\<close> key is loaded as version 1: the deprecation
  message is appended and the v1 transform is applied to the mapping with its keys
  rewritten.
\<close>

lemma load_config_dict_no_version:
  assumes "d \<noteq> []" and "map_of d ''version'' = None"
  shows "load_config_dict im conv config_path (Some (YamlLoaded (PDict d))) msgs =
           load_v1_dict im conv (dict_items (replace_in_keys (PDict d) (CHR ''_'') (CHR ''-'')))
             (msgs @ [deprecated_format_message config_path])"
proof -
  have v: "map_of (dict_items (replace_in_keys (PDict d) (CHR ''_'') (CHR ''-''))) ''version'' = None"
    using version_after_replace[of d] assms(2) by simp
  then have "AList.delete ''version'' (dict_items (replace_in_keys (PDict d) (CHR ''_'') (CHR ''-'')))
             = dict_items (replace_in_keys (PDict d) (CHR ''_'') (CHR ''-''))"
    by (simp add: delete_id map_of_eq_None_iff)
  then show ?thesis
    unfolding load_config_dict_mapping[OF assms(1)] Let_def v by simp
qed

section \<open>When the diff against the defaults raises\<close>

lemma key_paths_other_entry:
  "(\<And>sub. value \<noteq> PDict sub) \<Longrightarrow> key_paths ((key, value) # dct) = [key] # key_paths dct"
  by (cases "value") auto

lemma loop_other_entry:
  "(\<And>sub. value \<noteq> PDict sub) \<Longrightarrow>
   remove_common_items_loop ((key, value) # dct) reference_dct acc =
     (case subscript reference_dct key of
        Inl e \<Rightarrow> Inl e
      | Inr reference_value \<Rightarrow>
          if py_eq value reference_value then remove_common_items_loop dct reference_dct acc
          else remove_common_items_loop dct reference_dct (AList.update key value acc))"
  by (cases "value") auto

lemma find_under_key:
  "subscript reference_dct key = Inr v \<Longrightarrow>
   List.find (\<lambda>path. isl (resolve reference_dct path)) (map ((#) key) paths)
     = map_option ((#) key) (List.find (\<lambda>path. isl (resolve v path)) paths)"
  by (induction paths) auto

lemma find_append:
  "List.find P (xs @ ys) = (case List.find P xs of None \<Rightarrow> List.find P ys | Some x \<Rightarrow> Some x)"
  by (induction xs) auto

lemma first_failing_lookup_dict_entry:
  "first_failing_lookup ((key, PDict sub) # dct) reference_dct =
     (case subscript reference_dct key of
        Inl e \<Rightarrow> Some [key]
      | Inr v \<Rightarrow>
          (case first_failing_lookup sub v of
             Some path \<Rightarrow> Some (key # path)
           | None \<Rightarrow> first_failing_lookup dct reference_dct))"
  by (auto simp: first_failing_lookup_def find_append find_under_key split: sum.splits option.splits)

lemma first_failing_lookup_other_entry:
  "(\<And>sub. value \<noteq> PDict sub) \<Longrightarrow>
   first_failing_lookup ((key, value) # dct) reference_dct =
     (case subscript reference_dct key of
        Inl e \<Rightarrow> Some [key]
      | Inr v \<Rightarrow> first_failing_lookup dct reference_dct)"
  by (auto simp: first_failing_lookup_def key_paths_other_entry split: sum.splits)

lemma first_failing_lookup_fails:
  "first_failing_lookup dct reference_dct = Some path \<Longrightarrow> path \<noteq> []"
  unfolding first_failing_lookup_def by (auto simp: find_Some_iff)

lemma loop_first_failing_lookup:
  "(first_failing_lookup dct reference_dct = None \<longrightarrow>
      (\<exists>r. remove_common_items_loop dct reference_dct acc = Inr r))
   \<and> (\<forall>path. first_failing_lookup dct reference_dct = Some path \<longrightarrow>
        (\<exists>parent e. resolve reference_dct (butlast path) = Inr parent
                   \<and> subscript parent (last path) = Inl e
                   \<and> remove_common_items_loop dct reference_dct acc = Inl e))"
proof (induction "size_list (size_prod (\<lambda>_. 0) size) dct" arbitrary: dct reference_dct acc
       rule: less_induct)
  case less
  show ?case
  proof (cases dct)
    case Nil
    then show ?thesis by (simp add: first_failing_lookup_def)
  next
    case (Cons entry rest)
    obtain key "value" where entry: "entry = (key, value)" by (cases entry)
    have rest_small: "size_list (size_prod (\<lambda>_. 0) size) rest < size_list (size_prod (\<lambda>_. 0) size) dct"
      using Cons by simp
    note ih_rest = less.hyps[OF rest_small]
    show ?thesis
    proof (cases "subscript reference_dct key")
      case (Inl e)
      have f: "first_failing_lookup dct reference_dct = Some [key]"
        using Inl Cons entry
        by (cases "\<exists>sub. value = PDict sub")
           (auto simp: first_failing_lookup_dict_entry first_failing_lookup_other_entry)
      have l: "remove_common_items_loop dct reference_dct acc = Inl e"
        using Inl Cons entry by (cases "value") auto
      show ?thesis using f l Inl by simp
    next
      case (Inr v)
      show ?thesis
      proof (cases "\<exists>sub. value = PDict sub")
        case True
        then obtain sub where sub: "value = PDict sub" by blast
        have sub_small: "size_list (size_prod (\<lambda>_. 0) size) sub < size_list (size_prod (\<lambda>_. 0) size) dct"
          using Cons entry sub by simp
        note ih_sub = less.hyps[OF sub_small, of v "[]"]
        show ?thesis
        proof (cases "first_failing_lookup sub v")
          case None
          then obtain r where r: "remove_common_items_loop sub v [] = Inr r"
            using ih_sub by blast
          have f: "first_failing_lookup dct reference_dct = first_failing_lookup rest reference_dct"
            using Cons entry sub Inr None by (simp add: first_failing_lookup_dict_entry)
          have l: "remove_common_items_loop dct reference_dct acc
                   = remove_common_items_loop rest reference_dct
                       (if r = [] then acc else AList.update key (PDict r) acc)"
            using Cons entry sub Inr r by simp
          show ?thesis unfolding f l by (rule ih_rest)
        next
          case (Some path)
          then obtain parent e where p: "resolve v (butlast path) = Inr parent"
            and s: "subscript parent (last path) = Inl e"
            and l0: "remove_common_items_loop sub v [] = Inl e"
            using ih_sub by blast
          have ne: "path \<noteq> []" using Some by (rule first_failing_lookup_fails)
          have f: "first_failing_lookup dct reference_dct = Some (key # path)"
            using Cons entry sub Inr Some by (simp add: first_failing_lookup_dict_entry)
          have l: "remove_common_items_loop dct reference_dct acc = Inl e"
            using Cons entry sub Inr l0 by simp
          have p': "resolve reference_dct (butlast (key # path)) = Inr parent"
            using ne p Inr by simp
          have s': "subscript parent (last (key # path)) = Inl e"
            using ne s by simp
          show ?thesis unfolding f using l p' s' by blast
        qed
      next
        case False
        then have nd: "\<And>sub. value \<noteq> PDict sub" by blast
        have f: "first_failing_lookup dct reference_dct = first_failing_lookup rest reference_dct"
          using Cons entry Inr by (simp add: first_failing_lookup_other_entry[OF nd])
        have l: "remove_common_items_loop dct reference_dct acc
                 = remove_common_items_loop rest reference_dct
                     (if py_eq value v then acc else AList.update key value acc)"
          using Cons entry Inr by (simp add: loop_other_entry[OF nd])
        show ?thesis unfolding f l by (rule ih_rest)
      qed
    qed
  qed
qed

lemma covered_iff: "covered dct reference_dct \<longleftrightarrow> first_failing_lookup dct reference_dct = None"
  by (auto simp: covered_def first_failing_lookup_def find_None_iff list_all_iff)

lemma subscript_fails:
  "subscript parent key = Inl e \<Longrightarrow>
   e = (case parent of PDict r \<Rightarrow> KeyError key | _ \<Rightarrow> TypeError)
   \<and> (\<forall>r. parent = PDict r \<longrightarrow> key \<notin> fst ` set r)"
  by (cases parent) (auto split: option.splits simp: map_of_eq_None_iff)

lemma covered_dict_entry:
  "covered ((key, PDict sub) # dct) reference_dct =
     (case subscript reference_dct key of
        Inl e \<Rightarrow> False
      | Inr v \<Rightarrow> covered sub v \<and> covered dct reference_dct)"
  by (auto simp: covered_iff first_failing_lookup_dict_entry split: sum.splits option.splits)

lemma covered_other_entry:
  "(\<And>sub. value \<noteq> PDict sub) \<Longrightarrow>
   covered ((key, value) # dct) reference_dct =
     (case subscript reference_dct key of
        Inl e \<Rightarrow> False
      | Inr v \<Rightarrow> covered dct reference_dct)"
  by (auto simp: covered_iff first_failing_lookup_other_entry split: sum.splits option.splits)


lemma conforms_lookup:
  "conforms declared r \<Longrightarrow> distinct (map fst r) \<Longrightarrow> (k, s) \<in> set declared \<Longrightarrow>
   \<exists>v. map_of r k = Some v
       \<and> (case s of Field \<Rightarrow> True | Section inner \<Rightarrow> (\<exists>rr. v = PDict rr \<and> conforms inner rr))"
proof (induction declared r rule: conforms.induct)
  case (2 field_name declared key "value" dct)
  show ?case
  proof (cases "(k, s) = (field_name, Field)")
    case True
    then show ?thesis using 2 by simp
  next
    case False
    then have "(k, s) \<in> set declared" using 2(4) by auto
    then obtain v where v: "map_of dct k = Some v"
      and c: "(case s of Field \<Rightarrow> True | Section inner \<Rightarrow> (\<exists>rr. v = PDict rr \<and> conforms inner rr))"
      using 2 by auto
    have "(k, v) \<in> set dct" using v by (rule map_of_SomeD)
    then have "k \<in> fst ` set dct" by force
    then have "k \<noteq> key" using 2 by auto
    then show ?thesis using v c by simp
  qed
next
  case (3 field_name section_fields declared key "value" dct)
  show ?case
  proof (cases "(k, s) = (field_name, Section section_fields)")
    case True
    then show ?thesis using 3 by (auto split: pyval.splits)
  next
    case False
    then have "(k, s) \<in> set declared" using 3(5) by auto
    then obtain v where v: "map_of dct k = Some v"
      and c: "(case s of Field \<Rightarrow> True | Section inner \<Rightarrow> (\<exists>rr. v = PDict rr \<and> conforms inner rr))"
      using 3 by auto
    have "(k, v) \<in> set dct" using v by (rule map_of_SomeD)
    then have "k \<in> fst ` set dct" by force
    then have "k \<noteq> key" using 3 by auto
    then show ?thesis using v c by simp
  qed
qed simp_all

lemma conforms_covered_under:
  "conforms declared dct \<Longrightarrow> conforms declared' r \<Longrightarrow> set declared \<subseteq> set declared' \<Longrightarrow>
   distinct_keys (PDict r) \<Longrightarrow> covered dct (PDict r)"
proof (induction declared dct arbitrary: declared' r rule: conforms.induct)
  case 1
  then show ?case by (simp add: covered_def)
next
  case (2 field_name declared key "value" dct)
  have nd: "\<And>sub. value \<noteq> PDict sub" using 2 by (auto split: pyval.splits)
  have "(key, Field) \<in> set declared'" using 2 by auto
  then obtain v where v: "map_of r key = Some v"
    using conforms_lookup[OF 2(3), of key Field] 2(5) by auto
  have rest: "covered dct (PDict r)"
    using 2(1)[OF _ 2(3) _ 2(5)] 2(2,4) by auto
  show ?case using v rest by (simp add: covered_other_entry[OF nd])
next
  case (3 field_name section_fields declared key "value" dct)
  obtain sub where sub: "value = PDict sub" and csub: "conforms section_fields sub"
    using 3 by (auto split: pyval.splits)
  have "(key, Section section_fields) \<in> set declared'" using 3 by auto
  then obtain rr where v: "map_of r key = Some (PDict rr)" and crr: "conforms section_fields rr"
    using conforms_lookup[OF 3(4), of key "Section section_fields"] 3(6) by auto
  have mem: "(key, PDict rr) \<in> set r" using v by (rule map_of_SomeD)
  have "\<And>k v. (k, v) \<in> set r \<Longrightarrow> distinct_keys v" using 3(6) by auto
  then have drr: "distinct_keys (PDict rr)" using mem by blast
  have inner: "covered sub (PDict rr)"
    using 3(1)[OF sub csub crr _ drr] by simp
  have rest: "covered dct (PDict r)"
    using 3(2)[OF _ 3(4) _ 3(6)] 3(3,5) by auto
  show ?case using v inner rest sub by (simp add: covered_dict_entry)
qed simp_all

text \<open>
  Claim C10, as amended. \<open>remove_common_dict_items\<close> looks up in the reference every key
  of \<open>dct\<close>, in iteration order and through nested mappings. Under the precondition that
  every key of \<open>dct\<close> is, recursively through nested mappings, present in the reference,
  it returns without error. Otherwise it raises at the first lookup that fails and returns
  nothing: a \<open>KeyError\<close> naming the key when the reference is a mapping at the corresponding
  level and lacks the key, a \<open>TypeError\<close> when the reference value at that level is not a
  mapping. The save path satisfies the precondition: two mappings serialised from the same
  schema are covered by one another, so \<open>to_config_dict\<close> returns.
\<close>

theorem remove_common_dict_items_first_failing_lookup:
  "(covered dct reference_dct \<longrightarrow>
      (\<exists>result. remove_common_dict_items dct reference_dct = Inr result))
   \<and> (\<not> covered dct reference_dct \<longrightarrow>
      (\<exists>path parent.
         first_failing_lookup dct reference_dct = Some path
         \<and> resolve reference_dct (butlast path) = Inr parent
         \<and> (\<forall>r. parent = PDict r \<longrightarrow> last path \<notin> fst ` set r)
         \<and> remove_common_dict_items dct reference_dct
             = Inl (case parent of PDict r \<Rightarrow> KeyError (last path) | _ \<Rightarrow> TypeError)))
   \<and> (conforms declared dct \<and> conforms declared default_dct \<and> distinct_keys (PDict default_dct) \<longrightarrow>
      covered dct (PDict default_dct) \<and> (\<exists>saved. to_config_dict dct default_dct = Inr saved))"
proof -
  note l = loop_first_failing_lookup[of dct reference_dct "[]"]
  have a: "covered dct reference_dct \<longrightarrow>
      (\<exists>result. remove_common_dict_items dct reference_dct = Inr result)"
    using l by (simp add: covered_iff remove_common_dict_items_def)
  have b: "\<not> covered dct reference_dct \<longrightarrow>
      (\<exists>path parent.
         first_failing_lookup dct reference_dct = Some path
         \<and> resolve reference_dct (butlast path) = Inr parent
         \<and> (\<forall>r. parent = PDict r \<longrightarrow> last path \<notin> fst ` set r)
         \<and> remove_common_dict_items dct reference_dct
             = Inl (case parent of PDict r \<Rightarrow> KeyError (last path) | _ \<Rightarrow> TypeError))"
  proof
    assume "\<not> covered dct reference_dct"
    then obtain path where path: "first_failing_lookup dct reference_dct = Some path"
      by (auto simp: covered_iff)
    then obtain parent e where p: "resolve reference_dct (butlast path) = Inr parent"
      and s: "subscript parent (last path) = Inl e"
      and r: "remove_common_items_loop dct reference_dct [] = Inl e"
      using l by blast
    note f = subscript_fails[OF s]
    show "\<exists>path parent.
         first_failing_lookup dct reference_dct = Some path
         \<and> resolve reference_dct (butlast path) = Inr parent
         \<and> (\<forall>r. parent = PDict r \<longrightarrow> last path \<notin> fst ` set r)
         \<and> remove_common_dict_items dct reference_dct
             = Inl (case parent of PDict r \<Rightarrow> KeyError (last path) | _ \<Rightarrow> TypeError)"
      using path p r f unfolding remove_common_dict_items_def by blast
  qed
  have c: "conforms declared dct \<and> conforms declared default_dct \<and> distinct_keys (PDict default_dct) \<longrightarrow>
      covered dct (PDict default_dct) \<and> (\<exists>saved. to_config_dict dct default_dct = Inr saved)"
  proof
    assume h: "conforms declared dct \<and> conforms declared default_dct \<and> distinct_keys (PDict default_dct)"
    then have cov: "covered dct (PDict default_dct)"
      using conforms_covered_under[of declared dct declared default_dct] by blast
    then obtain result where "remove_common_items_loop dct (PDict default_dct) [] = Inr result"
      using loop_first_failing_lookup[of dct "PDict default_dct" "[]"] by (auto simp: covered_iff)
    then have "\<exists>saved. to_config_dict dct default_dct = Inr saved"
      by (simp add: to_config_dict_def remove_common_dict_items_def)
    then show "covered dct (PDict default_dct) \<and> (\<exists>saved. to_config_dict dct default_dct = Inr saved)"
      using cov by blast
  qed
  show ?thesis using a b c by blast
qed


theorem remove_common_dict_items_first_failing_lookup_witness:
  "conforms UserConfig_schema
       [(''iac'', PDict [(''ignored_paths'', PList []), (''ignored_policies'', PList []),
                         (''minimum_severity'', PStr ''LOW'')]),
        (''instance'', PStr ''https://dashboard.example.com''), (''exit_zero'', PBool False),
        (''verbose'', PBool False),
        (''allow_self_signed'', PBool False), (''max_commits_for_hook'', PInt 50),
        (''sca'', PDict [(''ignored_paths'', PSet []), (''minimum_severity'', PStr ''LOW''),
                         (''ignored_vulnerabilities'', PList []),
                         (''ignore_not_fixable'', PBool False), (''ignore_fixable'', PBool False)]),
        (''secret'', PDict [(''show_secrets'', PBool True), (''ignored_detectors'', PSet []),
                            (''ignored_matches'',
                             PList [PDict [(''name'', PStr ''test''), (''match'', PStr ''deadbeef'')]]),
                            (''ignored_paths'', PSet []),
                            (''ignore_known_secrets'', PBool False)]),
        (''debug'', PBool False)]
   \<and> conforms UserConfig_schema
       [(''iac'', PDict [(''ignored_paths'', PList []), (''ignored_policies'', PList []),
                         (''minimum_severity'', PStr ''LOW'')]),
        (''instance'', PNone), (''exit_zero'', PBool False), (''verbose'', PBool False),
        (''allow_self_signed'', PBool False), (''max_commits_for_hook'', PInt 50),
        (''sca'', PDict [(''ignored_paths'', PSet []), (''minimum_severity'', PStr ''LOW''),
                         (''ignored_vulnerabilities'', PList []),
                         (''ignore_not_fixable'', PBool False), (''ignore_fixable'', PBool False)]),
        (''secret'', PDict [(''show_secrets'', PBool False), (''ignored_detectors'', PSet []),
                            (''ignored_matches'', PList []), (''ignored_paths'', PSet []),
                            (''ignore_known_secrets'', PBool False)]),
        (''debug'', PBool False)]
   \<and> distinct_keys (PDict
       [(''iac'', PDict [(''ignored_paths'', PList []), (''ignored_policies'', PList []),
                         (''minimum_severity'', PStr ''LOW'')]),
        (''instance'', PNone), (''exit_zero'', PBool False), (''verbose'', PBool False),
        (''allow_self_signed'', PBool False), (''max_commits_for_hook'', PInt 50),
        (''sca'', PDict [(''ignored_paths'', PSet []), (''minimum_severity'', PStr ''LOW''),
                         (''ignored_vulnerabilities'', PList []),
                         (''ignore_not_fixable'', PBool False), (''ignore_fixable'', PBool False)]),
        (''secret'', PDict [(''show_secrets'', PBool False), (''ignored_detectors'', PSet []),
                            (''ignored_matches'', PList []), (''ignored_paths'', PSet []),
                            (''ignore_known_secrets'', PBool False)]),
        (''debug'', PBool False)])
   \<and> covered
       [(''iac'', PDict [(''ignored_paths'', PList []), (''ignored_policies'', PList []),
                         (''minimum_severity'', PStr ''LOW'')]),
        (''instance'', PStr ''https://dashboard.example.com''), (''exit_zero'', PBool False),
        (''verbose'', PBool False),
        (''allow_self_signed'', PBool False), (''max_commits_for_hook'', PInt 50),
        (''sca'', PDict [(''ignored_paths'', PSet []), (''minimum_severity'', PStr ''LOW''),
                         (''ignored_vulnerabilities'', PList []),
                         (''ignore_not_fixable'', PBool False), (''ignore_fixable'', PBool False)]),
        (''secret'', PDict [(''show_secrets'', PBool True), (''ignored_detectors'', PSet []),
                            (''ignored_matches'',
                             PList [PDict [(''name'', PStr ''test''), (''match'', PStr ''deadbeef'')]]),
                            (''ignored_paths'', PSet []),
                            (''ignore_known_secrets'', PBool False)]),
        (''debug'', PBool False)]
       (PDict
       [(''iac'', PDict [(''ignored_paths'', PList []), (''ignored_policies'', PList []),
                         (''minimum_severity'', PStr ''LOW'')]),
        (''instance'', PNone), (''exit_zero'', PBool False), (''verbose'', PBool False),
        (''allow_self_signed'', PBool False), (''max_commits_for_hook'', PInt 50),
        (''sca'', PDict [(''ignored_paths'', PSet []), (''minimum_severity'', PStr ''LOW''),
                         (''ignored_vulnerabilities'', PList []),
                         (''ignore_not_fixable'', PBool False), (''ignore_fixable'', PBool False)]),
        (''secret'', PDict [(''show_secrets'', PBool False), (''ignored_detectors'', PSet []),
                            (''ignored_matches'', PList []), (''ignored_paths'', PSet []),
                            (''ignore_known_secrets'', PBool False)]),
        (''debug'', PBool False)])
   \<and> remove_common_dict_items
       [(''iac'', PDict [(''ignored_paths'', PList []), (''ignored_policies'', PList []),
                         (''minimum_severity'', PStr ''LOW'')]),
        (''instance'', PStr ''https://dashboard.example.com''), (''exit_zero'', PBool False),
        (''verbose'', PBool False),
        (''allow_self_signed'', PBool False), (''max_commits_for_hook'', PInt 50),
        (''sca'', PDict [(''ignored_paths'', PSet []), (''minimum_severity'', PStr ''LOW''),
                         (''ignored_vulnerabilities'', PList []),
                         (''ignore_not_fixable'', PBool False), (''ignore_fixable'', PBool False)]),
        (''secret'', PDict [(''show_secrets'', PBool True), (''ignored_detectors'', PSet []),
                            (''ignored_matches'',
                             PList [PDict [(''name'', PStr ''test''), (''match'', PStr ''deadbeef'')]]),
                            (''ignored_paths'', PSet []),
                            (''ignore_known_secrets'', PBool False)]),
        (''debug'', PBool False)]
       (PDict
       [(''iac'', PDict [(''ignored_paths'', PList []), (''ignored_policies'', PList []),
                         (''minimum_severity'', PStr ''LOW'')]),
        (''instance'', PNone), (''exit_zero'', PBool False), (''verbose'', PBool False),
        (''allow_self_signed'', PBool False), (''max_commits_for_hook'', PInt 50),
        (''sca'', PDict [(''ignored_paths'', PSet []), (''minimum_severity'', PStr ''LOW''),
                         (''ignored_vulnerabilities'', PList []),
                         (''ignore_not_fixable'', PBool False), (''ignore_fixable'', PBool False)]),
        (''secret'', PDict [(''show_secrets'', PBool False), (''ignored_detectors'', PSet []),
                            (''ignored_matches'', PList []), (''ignored_paths'', PSet []),
                            (''ignore_known_secrets'', PBool False)]),
        (''debug'', PBool False)])
     = Inr [(''instance'', PStr ''https://dashboard.example.com''),
            (''secret'', PDict [(''show_secrets'', PBool True),
                                (''ignored_matches'',
                                 PList [PDict [(''name'', PStr ''test''), (''match'', PStr ''deadbeef'')]])])]
   \<and> to_config_dict
       [(''iac'', PDict [(''ignored_paths'', PList []), (''ignored_policies'', PList []),
                         (''minimum_severity'', PStr ''LOW'')]),
        (''instance'', PStr ''https://dashboard.example.com''), (''exit_zero'', PBool False),
        (''verbose'', PBool False),
        (''allow_self_signed'', PBool False), (''max_commits_for_hook'', PInt 50),
        (''sca'', PDict [(''ignored_paths'', PSet []), (''minimum_severity'', PStr ''LOW''),
                         (''ignored_vulnerabilities'', PList []),
                         (''ignore_not_fixable'', PBool False), (''ignore_fixable'', PBool False)]),
        (''secret'', PDict [(''show_secrets'', PBool True), (''ignored_detectors'', PSet []),
                            (''ignored_matches'',
                             PList [PDict [(''name'', PStr ''test''), (''match'', PStr ''deadbeef'')]]),
                            (''ignored_paths'', PSet []),
                            (''ignore_known_secrets'', PBool False)]),
        (''debug'', PBool False)]
       [(''iac'', PDict [(''ignored_paths'', PList []), (''ignored_policies'', PList []),
                         (''minimum_severity'', PStr ''LOW'')]),
        (''instance'', PNone), (''exit_zero'', PBool False), (''verbose'', PBool False),
        (''allow_self_signed'', PBool False), (''max_commits_for_hook'', PInt 50),
        (''sca'', PDict [(''ignored_paths'', PSet []), (''minimum_severity'', PStr ''LOW''),
                         (''ignored_vulnerabilities'', PList []),
                         (''ignore_not_fixable'', PBool False), (''ignore_fixable'', PBool False)]),
        (''secret'', PDict [(''show_secrets'', PBool False), (''ignored_detectors'', PSet []),
                            (''ignored_matches'', PList []), (''ignored_paths'', PSet []),
                            (''ignore_known_secrets'', PBool False)]),
        (''debug'', PBool False)]
     = Inr (PDict [(''instance'', PStr ''https://dashboard.example.com''),
                   (''secret'', PDict [(''show-secrets'', PBool True),
                                       (''ignored-matches'',
                                        PList [PDict [(''name'', PStr ''test''), (''match'', PStr ''deadbeef'')]])]),
                   (''version'', PInt 2)])
   \<and> \<not> covered [(''x'', PInt 1), (''a'', PDict [(''y'', PInt 1)])] (PDict [(''a'', PInt 5)])
   \<and> first_failing_lookup [(''x'', PInt 1), (''a'', PDict [(''y'', PInt 1)])] (PDict [(''a'', PInt 5)]) = Some [''x'']
   \<and> resolve (PDict [(''a'', PInt 5)]) [] = Inr (PDict [(''a'', PInt 5)])
   \<and> remove_common_dict_items [(''x'', PInt 1), (''a'', PDict [(''y'', PInt 1)])] (PDict [(''a'', PInt 5)]) = Inl (KeyError ''x'')"
  using remove_common_dict_items_first_failing_lookup
    [of "[(''iac'', PDict [(''ignored_paths'', PList []), (''ignored_policies'', PList []),
                         (''minimum_severity'', PStr ''LOW'')]),
        (''instance'', PStr ''https://dashboard.example.com''), (''exit_zero'', PBool False),
        (''verbose'', PBool False),
        (''allow_self_signed'', PBool False), (''max_commits_for_hook'', PInt 50),
        (''sca'', PDict [(''ignored_paths'', PSet []), (''minimum_severity'', PStr ''LOW''),
                         (''ignored_vulnerabilities'', PList []),
                         (''ignore_not_fixable'', PBool False), (''ignore_fixable'', PBool False)]),
        (''secret'', PDict [(''show_secrets'', PBool True), (''ignored_detectors'', PSet []),
                            (''ignored_matches'',
                             PList [PDict [(''name'', PStr ''test''), (''match'', PStr ''deadbeef'')]]),
                            (''ignored_paths'', PSet []),
                            (''ignore_known_secrets'', PBool False)]),
        (''debug'', PBool False)]"
        "PDict
       [(''iac'', PDict [(''ignored_paths'', PList []), (''ignored_policies'', PList []),
                         (''minimum_severity'', PStr ''LOW'')]),
        (''instance'', PNone), (''exit_zero'', PBool False), (''verbose'', PBool False),
        (''allow_self_signed'', PBool False), (''max_commits_for_hook'', PInt 50),
        (''sca'', PDict [(''ignored_paths'', PSet []), (''minimum_severity'', PStr ''LOW''),
                         (''ignored_vulnerabilities'', PList []),
                         (''ignore_not_fixable'', PBool False), (''ignore_fixable'', PBool False)]),
        (''secret'', PDict [(''show_secrets'', PBool False), (''ignored_detectors'', PSet []),
                            (''ignored_matches'', PList []), (''ignored_paths'', PSet []),
                            (''ignore_known_secrets'', PBool False)]),
        (''debug'', PBool False)]"
        UserConfig_schema
        "[(''iac'', PDict [(''ignored_paths'', PList []), (''ignored_policies'', PList []),
                         (''minimum_severity'', PStr ''LOW'')]),
        (''instance'', PNone), (''exit_zero'', PBool False), (''verbose'', PBool False),
        (''allow_self_signed'', PBool False), (''max_commits_for_hook'', PInt 50),
        (''sca'', PDict [(''ignored_paths'', PSet []), (''minimum_severity'', PStr ''LOW''),
                         (''ignored_vulnerabilities'', PList []),
                         (''ignore_not_fixable'', PBool False), (''ignore_fixable'', PBool False)]),
        (''secret'', PDict [(''show_secrets'', PBool False), (''ignored_detectors'', PSet []),
                            (''ignored_matches'', PList []), (''ignored_paths'', PSet []),
                            (''ignore_known_secrets'', PBool False)]),
        (''debug'', PBool False)]"]
    remove_common_dict_items_first_failing_lookup
    [of "[(''x'', PInt 1), (''a'', PDict [(''y'', PInt 1)])]" "PDict [(''a'', PInt 5)]" "[]" "[]"]
  by (simp add: covered_def first_failing_lookup_def remove_common_dict_items_def
        to_config_dict_def UserConfig_schema_def rename_key_def str_replace_def
        CURRENT_CONFIG_VERSION_def)

text \<open>
  The claim as stated fails where the reference holds a value that is not a mapping under
  a key whose value in \<open>dct\<close> is a non-empty mapping: the nested key \<open>x\<close> is absent from
  the reference at its level, and the call raises \<open>TypeError\<close>, not \<open>KeyError\<close>.
\<close>

theorem remove_common_dict_items_type_error_counterexample:
  "\<not> covered [(''a'', PDict [(''x'', PInt 1)])] (PDict [(''a'', PInt 5)])
   \<and> first_failing_lookup [(''a'', PDict [(''x'', PInt 1)])] (PDict [(''a'', PInt 5)])
       = Some [''a'', ''x'']
   \<and> remove_common_dict_items [(''a'', PDict [(''x'', PInt 1)])] (PDict [(''a'', PInt 5)])
       = Inl TypeError"
  by (simp add: covered_def first_failing_lookup_def remove_common_dict_items_def)

end
